theory Spec2Isabelle
  imports Complex_Main "HOL-Library.Monad_Syntax" "HOL-Library.AList"
begin

section \<open>Text\<close>

text \<open>
  A Python \<open>str\<close> is a sequence of code points; the parser looks at code points beyond
  one byte (the directional marks U+200E ...), so text is a list of code point numbers.
  \<open>asc\<close> reads an ASCII literal.

  The character tables are those of CPython 3.11 (Unicode 14.0). White space (\<open>\s\<close>
  of \<open>re\<close>, \<open>str.strip\<close>) is its table of white-space code points. The decimal
  digits (\<open>\d\<close> of \<open>re\<close> on a \<open>str\<close> pattern, \<open>int\<close>) are the 660 code points of
  category Nd, in 66 runs of ten that each count from 0 to 9. \<open>lower\<close> and \<open>upper\<close>
  change the ASCII letters only. The source uses \<open>lower\<close> for nothing but searching the
  ASCII words "omitted", "deleted", "this message was deleted" and "frat party", and no
  code point beyond ASCII has a lower-case form that could take part in a match of one
  of them; it uses \<open>upper\<close> on the marker AM or PM only.
\<close>

type_synonym ustr = "nat list"

definition asc :: "string \<Rightarrow> ustr" where
  "asc s = map of_char s"

definition space :: "nat \<Rightarrow> bool" where
  "space c \<longleftrightarrow> (9 \<le> c \<and> c \<le> 13) \<or> (28 \<le> c \<and> c \<le> 32) \<or> c = 133 \<or> c = 160
     \<or> c = 5760 \<or> (8192 \<le> c \<and> c \<le> 8202) \<or> c = 8232 \<or> c = 8233 \<or> c = 8239
     \<or> c = 8287 \<or> c = 12288"

text \<open>The code points of the digit zero of every run of decimal digits.\<close>

definition decimal_zeros :: "nat list" where
  "decimal_zeros =
     [48, 1632, 1776, 1984, 2406, 2534, 2662, 2790, 2918, 3046, 3174, 3302, 3430, 3558,
      3664, 3792, 3872, 4160, 4240, 6112, 6160, 6470, 6608, 6784, 6800, 6992, 7088, 7232,
      7248, 42528, 43216, 43264, 43472, 43504, 43600, 44016, 65296, 66720, 68912, 69734,
      69872, 69942, 70096, 70384, 70736, 70864, 71248, 71360, 71472, 71904, 72016, 72784,
      73040, 73120, 92768, 92864, 93008, 120782, 120792, 120802, 120812, 120822, 123200,
      123632, 125264, 130032]"

text \<open>The value of a decimal digit; \<open>None\<close> for any other code point.\<close>

definition decimal :: "nat \<Rightarrow> nat option" where
  "decimal c = (case find (\<lambda>z. z \<le> c \<and> c < z + 10) decimal_zeros of
                  None \<Rightarrow> None
                | Some z \<Rightarrow> Some (c - z))"

definition digit :: "nat \<Rightarrow> bool" where
  "digit c \<longleftrightarrow> decimal c \<noteq> None"

definition lower :: "ustr \<Rightarrow> ustr" where
  "lower s = map (\<lambda>c. if 65 \<le> c \<and> c \<le> 90 then c + 32 else c) s"

definition upper :: "ustr \<Rightarrow> ustr" where
  "upper s = map (\<lambda>c. if 97 \<le> c \<and> c \<le> 122 then c - 32 else c) s"

text \<open>\<open>s.strip()\<close>, \<open>s.rstrip('\n\r')\<close> and \<open>s.lstrip\<close> of the seven directional marks.\<close>

definition strip :: "ustr \<Rightarrow> ustr" where
  "strip s = rev (dropWhile space (rev (dropWhile space s)))"

definition rstrip_nl :: "ustr \<Rightarrow> ustr" where
  "rstrip_nl s = rev (dropWhile (\<lambda>c. c = 10 \<or> c = 13) (rev s))"

definition mark :: "nat \<Rightarrow> bool" where
  "mark c \<longleftrightarrow> c = 8206 \<or> c = 8207 \<or> c = 8234 \<or> c = 8235 \<or> c = 8236 \<or> c = 8237 \<or> c = 8238"

definition lstrip_marks :: "ustr \<Rightarrow> ustr" where
  "lstrip_marks s = dropWhile mark s"

text \<open>\<open>s.startswith(p)\<close> and \<open>p in s\<close>.\<close>

fun startswith :: "ustr \<Rightarrow> ustr \<Rightarrow> bool" where
  "startswith s [] = True"
| "startswith [] (p # ps) = False"
| "startswith (c # cs) (p # ps) = (c = p \<and> startswith cs ps)"

fun contains :: "ustr \<Rightarrow> ustr \<Rightarrow> bool" where
  "contains [] p = (p = [])"
| "contains (c # cs) p = (startswith (c # cs) p \<or> contains cs p)"

text \<open>\<open>s.split(sep)\<close> for a separator of one code point.\<close>

fun split_on :: "nat \<Rightarrow> ustr \<Rightarrow> ustr list" where
  "split_on sep [] = [[]]"
| "split_on sep (c # cs) =
     (if c = sep then [] # split_on sep cs
      else (case split_on sep cs of p # ps \<Rightarrow> (c # p) # ps | [] \<Rightarrow> [[c]]))"

datatype error = ValueError | AttributeError

text \<open>
  \<open>int(s)\<close> on a run of decimal digits; any other text is \<open>None\<close>, its \<open>ValueError\<close> (the
  signs, blanks and underscores that \<open>int\<close> also reads never reach it, see
  \<open>build_message_no_crash\<close>).
\<close>

definition int_of :: "ustr \<Rightarrow> nat option" where
  "int_of s = (if s \<noteq> [] \<and> list_all digit s
               then Some (foldl (\<lambda>a c. 10 * a + the (decimal c)) 0 s) else None)"

section \<open>Calendar\<close>

record datetime =
  year :: nat
  month :: nat
  day :: nat
  hour :: nat
  minute :: nat
  second :: nat

definition is_leap :: "nat \<Rightarrow> bool" where
  "is_leap y \<longleftrightarrow> y mod 4 = 0 \<and> (y mod 100 \<noteq> 0 \<or> y mod 400 = 0)"

definition days_in_month :: "nat \<Rightarrow> nat \<Rightarrow> nat" where
  "days_in_month y m =
     (if m = 2 then (if is_leap y then 29 else 28)
      else if m = 4 \<or> m = 6 \<or> m = 9 \<or> m = 11 then 30 else 31)"

text \<open>
  The constructor \<open>datetime(y, mo, d, h, mi, s)\<close>: \<open>None\<close> is the \<open>ValueError\<close> it
  raises when a field is out of range.
\<close>

definition mk_datetime :: "nat \<Rightarrow> nat \<Rightarrow> nat \<Rightarrow> nat \<Rightarrow> nat \<Rightarrow> nat \<Rightarrow> datetime option" where
  "mk_datetime y mo d h mi s =
     (if 1 \<le> y \<and> y \<le> 9999 \<and> 1 \<le> mo \<and> mo \<le> 12 \<and> 1 \<le> d \<and> d \<le> days_in_month y mo
         \<and> h \<le> 23 \<and> mi \<le> 59 \<and> s \<le> 59
      then Some \<lparr>year = y, month = mo, day = d, hour = h, minute = mi, second = s\<rparr>
      else None)"

text \<open>The proleptic ordinal of a date (1 January of year 1 is day 1), as \<open>toordinal\<close>.\<close>

definition days_before_year :: "nat \<Rightarrow> nat" where
  "days_before_year y = (let p = y - 1 in p * 365 + p div 4 - p div 100 + p div 400)"

definition days_before_month :: "nat \<Rightarrow> nat \<Rightarrow> nat" where
  "days_before_month y m =
     [0, 0, 31, 59, 90, 120, 151, 181, 212, 243, 273, 304, 334] ! m
     + (if m > 2 \<and> is_leap y then 1 else 0)"

definition toordinal :: "datetime \<Rightarrow> nat" where
  "toordinal d = days_before_year (year d) + days_before_month (year d) (month d) + day d"

definition weekday :: "datetime \<Rightarrow> nat" where
  "weekday d = (toordinal d + 6) mod 7"

definition total_seconds :: "datetime \<Rightarrow> int" where
  "total_seconds d =
     int (toordinal d) * 86400 + int (hour d) * 3600 + int (minute d) * 60 + int (second d)"

text \<open>Comparison of two timestamps: field by field, the year first.\<close>

definition dt_key :: "datetime \<Rightarrow> nat list" where
  "dt_key d = [year d, month d, day d, hour d, minute d, second d]"

fun lex_le :: "nat list \<Rightarrow> nat list \<Rightarrow> bool" where
  "lex_le [] ys = True"
| "lex_le (x # xs) [] = False"
| "lex_le (x # xs) (y # ys) = (x < y \<or> (x = y \<and> lex_le xs ys))"

definition dt_le :: "datetime \<Rightarrow> datetime \<Rightarrow> bool" where
  "dt_le a b = lex_le (dt_key a) (dt_key b)"

section \<open>The message-start pattern\<close>

text \<open>
  \<^verbatim>\<open>^(U+200E)?\[(\d{1,2}/\d{1,2}/\d{2}),\s*(\d{1,2}:\d{2}:\d{2}\s*(?:AM|PM)?)\]\s*([^:]+):\s*(.*)$\<close>
  with \<open>re.IGNORECASE\<close>, matched from the start of the line. The pieces below read the
  pattern left to right. Each greedy piece is followed by something it cannot itself
  match (a digit run by a separator, white space by a digit or a bracket), so the first
  choice of the backtracking matcher is the only one that can succeed; the one place
  where giving back matters (\<open>\s*\<close> before the sender) is written out in
  \<open>sender_group\<close>.
\<close>

fun lit :: "nat \<Rightarrow> ustr \<Rightarrow> ustr option" where
  "lit c [] = None"
| "lit c (x # r) = (if x = c then Some r else None)"

fun digits12 :: "ustr \<Rightarrow> (ustr \<times> ustr) option" where
  "digits12 [] = None"
| "digits12 [a] = (if digit a then Some ([a], []) else None)"
| "digits12 (a # b # r) =
     (if digit a \<and> digit b then Some ([a, b], r)
      else if digit a then Some ([a], b # r) else None)"

fun digits2 :: "ustr \<Rightarrow> (ustr \<times> ustr) option" where
  "digits2 (a # b # r) = (if digit a \<and> digit b then Some ([a, b], r) else None)"
| "digits2 s = None"

text \<open>\<open>(?:AM|PM)?\<close>, ignoring case: the marker read (empty when absent) and the rest.\<close>

fun meridiem :: "ustr \<Rightarrow> ustr \<times> ustr" where
  "meridiem (a # m # r) =
     (if (a = 65 \<or> a = 97 \<or> a = 80 \<or> a = 112) \<and> (m = 77 \<or> m = 109)
      then ([a, m], r) else ([], a # m # r))"
| "meridiem s = ([], s)"

text \<open>
  \<open>\s*([^:]+)\<close> before the colon. When the white space is followed at once by the
  colon, the matcher gives the last white-space code point back to the sender group.
\<close>

definition sender_group :: "ustr \<Rightarrow> (ustr \<times> ustr) option" where
  "sender_group s =
     (let ws = takeWhile space s; r = dropWhile space s;
          name = takeWhile (\<lambda>c. c \<noteq> 58) r; rest = dropWhile (\<lambda>c. c \<noteq> 58) r
      in if name \<noteq> [] then Some (name, rest)
         else if ws \<noteq> [] then Some ([last ws], r)
         else None)"

text \<open>
  \<open>\s*(.*)$\<close>: \<open>.\<close> stops at a line feed and \<open>$\<close> is the end of the text or the place
  before a final line feed.
\<close>

definition content_group :: "ustr \<Rightarrow> ustr option" where
  "content_group s =
     (let c = dropWhile space s;
          c' = (if c \<noteq> [] \<and> last c = 10 then butlast c else c)
      in if 10 \<in> set c' then None else Some c')"

text \<open>Group 1, \<open>\d{1,2}/\d{1,2}/\d{2}\<close>: the text of the group and the rest.\<close>

definition date_group :: "ustr \<Rightarrow> (ustr \<times> ustr) option" where
  "date_group s = do {
     (mo, s1) \<leftarrow> digits12 s;
     s2 \<leftarrow> lit 47 s1;
     (dd, s3) \<leftarrow> digits12 s2;
     s4 \<leftarrow> lit 47 s3;
     (yy, s5) \<leftarrow> digits2 s4;
     Some (mo @ [47] @ dd @ [47] @ yy, s5)
   }"

text \<open>\<open>\d{1,2}:\d{2}:\d{2}\<close>: the three digit runs and the rest.\<close>

definition clock :: "ustr \<Rightarrow> ((ustr \<times> ustr \<times> ustr) \<times> ustr) option" where
  "clock s = do {
     (hh, s1) \<leftarrow> digits12 s;
     s2 \<leftarrow> lit 58 s1;
     (mi, s3) \<leftarrow> digits2 s2;
     s4 \<leftarrow> lit 58 s3;
     (ss, s5) \<leftarrow> digits2 s4;
     Some ((hh, mi, ss), s5)
   }"

text \<open>Group 2, \<open>\d{1,2}:\d{2}:\d{2}\s*(?:AM|PM)?\<close>: the text of the group and the rest.\<close>

definition time_group :: "ustr \<Rightarrow> (ustr \<times> ustr) option" where
  "time_group s = do {
     ((hh, mi, ss), s1) \<leftarrow> clock s;
     (ap, s2) \<leftarrow> Some (meridiem (dropWhile space s1));
     Some (hh @ [58] @ mi @ [58] @ ss @ takeWhile space s1 @ ap, s2)
   }"

definition message_match :: "ustr \<Rightarrow> (ustr \<times> ustr \<times> ustr \<times> ustr) option" where
  "message_match s0 = do {
     s1 \<leftarrow> lit 91 (case s0 of [] \<Rightarrow> [] | c # r \<Rightarrow> if c = 8206 then r else s0);
     (date_str, s2) \<leftarrow> date_group s1;
     s3 \<leftarrow> lit 44 s2;
     (time_str, s4) \<leftarrow> time_group (dropWhile space s3);
     s5 \<leftarrow> lit 93 s4;
     (name, s6) \<leftarrow> sender_group s5;
     s7 \<leftarrow> lit 58 s6;
     c \<leftarrow> content_group s7;
     Some (date_str, time_str, name, c)
   }"

text \<open>
  \<^verbatim>\<open>re.match(r'(\d{1,2}):(\d{2}):(\d{2})\s*(AM|PM)?', time_str, re.IGNORECASE)\<close>:
  the four groups, the last one \<open>None\<close> when no marker was read.
\<close>

definition time_match :: "ustr \<Rightarrow> (ustr \<times> ustr \<times> ustr \<times> ustr option) option" where
  "time_match s = do {
     ((hh, mi, ss), s1) \<leftarrow> clock s;
     (ap, s2) \<leftarrow> Some (meridiem (dropWhile space s1));
     Some (hh, mi, ss, if ap = [] then None else Some ap)
   }"

section \<open>Messages\<close>

record message =
  date :: datetime
  sender :: ustr
  content :: ustr
  is_media :: bool
  is_deleted :: bool
  is_system :: bool

text \<open>\<^verbatim>\<open>full_year = 2000 + year if year < 50 else 1900 + year\<close>\<close>

definition full_year :: "nat \<Rightarrow> nat" where
  "full_year y = (if y < 50 then 2000 + y else 1900 + y)"

text \<open>
  The adjustment of \<open>hours\<close> by the marker \<open>ampm\<close> (\<open>None\<close> when the time has none):
  \<^verbatim>\<open>
  if ampm:
      if ampm.upper() == 'PM' and hours != 12: hours += 12
      elif ampm.upper() == 'AM' and hours == 12: hours = 0
  \<close>
\<close>

definition convert_hours :: "ustr option \<Rightarrow> nat \<Rightarrow> nat" where
  "convert_hours ampm hours =
     (case ampm of
        None \<Rightarrow> hours
      | Some a \<Rightarrow>
          if upper a = asc ''PM'' \<and> hours \<noteq> 12 then hours + 12
          else if upper a = asc ''AM'' \<and> hours = 12 then 0
          else hours)"

text \<open>
  What the body of the matching branch makes of the four groups: a message, nothing
  (the \<open>ValueError\<close> of the \<open>datetime\<close> constructor, caught, \<open>continue\<close>), or an
  exception that leaves \<open>parse_chat\<close> (a failing \<open>int\<close> or unpacking, \<open>.group\<close> of
  \<open>None\<close>).
\<close>

datatype built = Built message | Rejected | Crashed error

definition ints3 :: "ustr \<Rightarrow> ustr \<Rightarrow> ustr \<Rightarrow> (nat \<times> nat \<times> nat) option" where
  "ints3 a b c = do { x \<leftarrow> int_of a; y \<leftarrow> int_of b; z \<leftarrow> int_of c; Some (x, y, z) }"

definition new_message :: "datetime \<Rightarrow> ustr \<Rightarrow> ustr \<Rightarrow> message" where
  "new_message dt sender0 content0 =
     (let content1 = lstrip_marks (strip content0);
          content_lower = lower content1
      in \<lparr>date = dt,
          sender = strip sender0,
          content = content1,
          is_media = contains content_lower (asc ''omitted''),
          is_deleted = (contains content_lower (asc ''deleted'')
                        \<or> contains content_lower (asc ''this message was deleted'')),
          is_system = (contains (lower sender0) (asc ''frat party'')
                       \<or> startswith (strip sender0) (asc ''2K25''))\<rparr>)"

definition build_message :: "ustr \<times> ustr \<times> ustr \<times> ustr \<Rightarrow> built" where
  "build_message g =
     (case g of (date_str, time_str, sender0, content0) \<Rightarrow>
        (case split_on 47 date_str of
           [a, b, c] \<Rightarrow>
             (case ints3 a b c of
                None \<Rightarrow> Crashed ValueError
              | Some (mo, d, y) \<Rightarrow>
                  (case time_match time_str of
                     None \<Rightarrow> Crashed AttributeError
                   | Some (h, mi, s, ampm) \<Rightarrow>
                       (case ints3 h mi s of
                          None \<Rightarrow> Crashed ValueError
                        | Some (hours, minutes, seconds) \<Rightarrow>
                            (case mk_datetime (full_year y) mo d
                                    (convert_hours ampm hours) minutes seconds of
                               None \<Rightarrow> Rejected
                             | Some dt \<Rightarrow> Built (new_message dt sender0 content0)))))
         | _ \<Rightarrow> Crashed ValueError))"

section \<open>The parser\<close>

text \<open>
  The messages are Python dictionaries, mutable and shared: \<open>messages\<close> holds
  references, \<open>current_message\<close> is a reference to the dictionary that continuation
  lines extend. The state of the loop is therefore a store of dictionaries (an address
  is a position in \<open>store\<close>, a new dictionary goes to the end), the list of addresses
  \<open>messages\<close> and the address \<open>current_message\<close>, if any.
\<close>

record pstate =
  store :: "message list"
  messages :: "nat list"
  current_message :: "nat option"

text \<open>\<^verbatim>\<open>if current_message: messages.append(current_message)\<close>\<close>

definition flush :: "pstate \<Rightarrow> pstate" where
  "flush s = (case current_message s of
                None \<Rightarrow> s
              | Some a \<Rightarrow> s\<lparr>messages := messages s @ [a]\<rparr>)"

text \<open>\<^verbatim>\<open>message_pattern.match(clean_line) or message_pattern.match(line)\<close>\<close>

definition match_line :: "ustr \<Rightarrow> (ustr \<times> ustr \<times> ustr \<times> ustr) option" where
  "match_line line = (case message_match (lstrip_marks line) of
                        Some g \<Rightarrow> Some g
                      | None \<Rightarrow> message_match line)"

text \<open>\<^verbatim>\<open>current_message['content'] += ' ' + line.strip()\<close>\<close>

definition append_content :: "pstate \<Rightarrow> nat \<Rightarrow> ustr \<Rightarrow> pstate" where
  "append_content s a t =
     s\<lparr>store := (store s)[a := (store s ! a)\<lparr>content := content (store s ! a) @ [32] @ t\<rparr>]\<rparr>"

text \<open>One turn of the loop over the lines of the file.\<close>

definition line_step :: "pstate \<Rightarrow> ustr \<Rightarrow> error + pstate" where
  "line_step s raw =
     (let line = rstrip_nl raw in
      if line = [] then Inr s
      else (case match_line line of
              Some g \<Rightarrow>
                (let s1 = flush s in
                 case build_message g of
                   Crashed e \<Rightarrow> Inl e
                 | Rejected \<Rightarrow> Inr s1
                 | Built m \<Rightarrow>
                     Inr (s1\<lparr>store := store s1 @ [m],
                              current_message := Some (length (store s1))\<rparr>))
            | None \<Rightarrow>
                (case current_message s of
                   Some a \<Rightarrow> if strip line \<noteq> [] then Inr (append_content s a (strip line)) else Inr s
                 | None \<Rightarrow> Inr s)))"

fun run :: "pstate \<Rightarrow> ustr list \<Rightarrow> error + pstate" where
  "run s [] = Inr s"
| "run s (l # ls) = (case line_step s l of Inl e \<Rightarrow> Inl e | Inr s' \<Rightarrow> run s' ls)"

definition init :: pstate where
  "init = \<lparr>store = [], messages = [], current_message = None\<rparr>"

text \<open>The list returned: the dictionaries that \<open>messages\<close> refers to, as they are at the end.\<close>

definition result :: "pstate \<Rightarrow> message list" where
  "result s = map (\<lambda>a. store s ! a) (messages (flush s))"

definition parse_chat :: "ustr list \<Rightarrow> error + message list" where
  "parse_chat lines = (case run init lines of Inl e \<Rightarrow> Inl e | Inr s \<Rightarrow> Inr (result s))"

text \<open>\<^verbatim>\<open>[m for m in messages if cutoff <= m['date'] <= end_date]\<close>\<close>

definition filter_last_365_days :: "message list \<Rightarrow> message list" where
  "filter_last_365_days ms =
     filter (\<lambda>m. dt_le \<lparr>year = 2024, month = 11, day = 25, hour = 0, minute = 0, second = 0\<rparr>
                       (date m)
                 \<and> dt_le (date m)
                       \<lparr>year = 2025, month = 11, day = 25, hour = 23, minute = 59, second = 59\<rparr>)
       ms"

subsection \<open>The lines of a log, for the statements about the parser\<close>

text \<open>
  The message that a line starts: the line matches the pattern and its date and time
  make a \<open>datetime\<close>.
\<close>

definition start_of :: "ustr \<Rightarrow> message option" where
  "start_of raw =
     (let line = rstrip_nl raw in
      if line = [] then None
      else (case match_line line of
              None \<Rightarrow> None
            | Some g \<Rightarrow> (case build_message g of Built m \<Rightarrow> Some m | _ \<Rightarrow> None)))"

definition starts :: "ustr list \<Rightarrow> message list" where
  "starts ls = List.map_filter start_of ls"

text \<open>A line that matches the pattern and whose date or time is refused.\<close>

definition rejected :: "ustr \<Rightarrow> bool" where
  "rejected raw \<longleftrightarrow>
     (let line = rstrip_nl raw in
      line \<noteq> [] \<and> (case match_line line of
                      None \<Rightarrow> False
                    | Some g \<Rightarrow> build_message g = Rejected))"

text \<open>
  The text that a continuation line adds: the line does not match the pattern and is
  not blank.
\<close>

definition continuation_of :: "ustr \<Rightarrow> ustr option" where
  "continuation_of raw =
     (let line = rstrip_nl raw in
      if line \<noteq> [] \<and> match_line line = None \<and> strip line \<noteq> [] then Some (strip line)
      else None)"

definition blank :: "ustr \<Rightarrow> bool" where
  "blank raw \<longleftrightarrow> strip (rstrip_nl raw) = []"

text \<open>A run of one or two digits, of two digits.\<close>

definition digs12 :: "ustr \<Rightarrow> bool" where
  "digs12 ds \<longleftrightarrow> list_all digit ds \<and> (length ds = 1 \<or> length ds = 2)"

definition digs2 :: "ustr \<Rightarrow> bool" where
  "digs2 ds \<longleftrightarrow> list_all digit ds \<and> length ds = 2"

text \<open>
  The message-start lines of a log that have a valid date, in the order of the log: the
  message of each, with the lines that follow it up to the next such line.
\<close>

fun segments :: "ustr list \<Rightarrow> (message \<times> ustr list) list" where
  "segments [] = []"
| "segments (l # ls) =
     (case start_of l of
        None \<Rightarrow> segments ls
      | Some m \<Rightarrow> (m, takeWhile (\<lambda>x. start_of x = None) ls) # segments ls)"

text \<open>The text that the continuation lines among \<open>body\<close> add to a content.\<close>

definition added :: "ustr list \<Rightarrow> ustr" where
  "added body = concat (map (\<lambda>t. [32] @ t) (List.map_filter continuation_of body))"

text \<open>
  What the parser returns for a start line with the message \<open>m\<close> and the lines \<open>body\<close>
  after it: the message with the text of its continuation lines, once, and once more
  for every line of \<open>body\<close> that matches the pattern and whose date is refused.
\<close>

definition emitted :: "message \<times> ustr list \<Rightarrow> message list" where
  "emitted g =
     (case g of (m, body) \<Rightarrow>
        replicate (Suc (length (filter rejected body))) (m\<lparr>content := content m @ added body\<rparr>))"

text \<open>
  The shape of the parser's state: \<open>current_message\<close> is the newest dictionary, and
  \<open>messages\<close> refers to dictionaries in the order of their making.
\<close>

definition well_formed :: "pstate \<Rightarrow> bool" where
  "well_formed s \<longleftrightarrow>
     sorted (messages s) \<and>
     (case current_message s of
        None \<Rightarrow> messages s = [] \<and> store s = []
      | Some c \<Rightarrow> Suc c = length (store s) \<and> list_all (\<lambda>a. a \<le> c) (messages s))"

text \<open>
  \<open>shifted S M t s\<close>: the state \<open>s\<close> is the state \<open>t\<close> with the dictionaries \<open>S\<close>
  put before its store and the references \<open>M\<close> before its list of messages.
\<close>

definition shifted :: "message list \<Rightarrow> nat list \<Rightarrow> pstate \<Rightarrow> pstate \<Rightarrow> bool" where
  "shifted S M t s \<longleftrightarrow>
     store s = S @ store t \<and>
     messages s = M @ map (\<lambda>a. a + length S) (messages t) \<and>
     current_message s = map_option (\<lambda>a. a + length S) (current_message t)"

definition timestamps_sorted :: "message list \<Rightarrow> bool" where
  "timestamps_sorted ms = sorted_wrt dt_le (map date ms)"

text \<open>A message of the kind the parser makes, for the examples.\<close>

definition sample_message :: message where
  "sample_message =
     \<lparr>date = \<lparr>year = 2024, month = 11, day = 25, hour = 9, minute = 0, second = 0\<rparr>,
      sender = asc ''Alice'', content = asc ''Hello'',
      is_media = False, is_deleted = False, is_system = False\<rparr>"

definition media_message :: message where
  "media_message = sample_message\<lparr>content := asc ''<Media omitted>'', is_media := True\<rparr>"

section \<open>The statistics\<close>

definition name_map :: "(ustr \<times> ustr) list" where
  "name_map =
     [(asc ''Abanob Nashat'', asc ''Abanob''),
      (asc ''Fady Barsoum'', asc ''Fady B''),
      (asc ''Fady Henen'', asc ''Fady H''),
      (asc ''David Hana'', asc ''David''),
      (asc ''Meena Ibrahim'', asc ''Meena''),
      (asc ''Andro A.'', asc ''Andro''),
      (asc ''Kirolous Kamel'', asc ''Kiro''),
      (asc ''Thomas hanna David'' @ [39] @ asc ''s Brother'', asc ''Thomas''),
      (asc ''Aziz El Romancy'', asc ''Aziz''),
      (asc ''Aziz El Romancy'' @ [128525], asc ''Aziz'')]"

text \<open>\<^verbatim>\<open>name_map.get(name, name)\<close>\<close>

definition normalize_name :: "ustr \<Rightarrow> ustr" where
  "normalize_name name = (case map_of name_map name of Some n \<Rightarrow> n | None \<Rightarrow> name)"

text \<open>
  The dictionaries of \<open>calculate_stats\<close> as records, a key of a dictionary as a field.
  The keys of a person carry the prefix \<open>p_\<close> where the top-level dictionary has a key
  of the same name. A \<open>defaultdict\<close> is an association list in the order of insertion.
  A day key \<open>'%Y-%m-%d'\<close> is the triple (year, month, day) and a month key
  \<open>'%Y-%m'\<close> the pair (year, month). The times are in minutes as exact fractions
  (the source divides two floating-point numbers; its comparisons with 0, 30, 60 and
  120 give the same answers, the operands being whole seconds).

  Left out, as nothing below depends on them: the counters that are fed by pattern
  searches in the text (\<open>emojis\<close>, \<open>laughs\<close>, \<open>caps_messages\<close>, \<open>links\<close>,
  \<open>mentions\<close>), the word counts, and the key \<open>conversations\<close>, which is never
  written.
\<close>

type_synonym date_key = "nat \<times> nat \<times> nat"

record person =
  p_messages :: nat
  p_media :: nat
  p_total_chars :: nat
  response_times :: "rat list"
  p_active_days :: "date_key list"
  p_by_hour :: "nat list"
  by_day :: "nat list"
  questions :: nat
  exclamations :: nat
  long_messages :: nat
  short_messages :: nat
  first_message :: "datetime option"
  last_message :: "datetime option"
  conversations_started :: nat
  replied_to_count :: nat
  weekend_messages :: nat
  late_night_messages :: nat
  morning_messages :: nat
  message_lengths :: "nat list"

record longest =
  l_sender :: ustr
  l_length :: nat
  preview :: ustr

record 'p stats =
  total_messages :: nat
  total_media :: nat
  total_chars :: nat
  by_person :: "(ustr \<times> 'p) list"
  by_month :: "((nat \<times> nat) \<times> nat) list"
  by_hour :: "nat list"
  by_day_of_week :: "nat list"
  daily_counts :: "(date_key \<times> nat) list"
  longest_message :: longest
  active_days :: "date_key list"

definition new_person :: person where
  "new_person =
     \<lparr>p_messages = 0, p_media = 0, p_total_chars = 0, response_times = [],
      p_active_days = [], p_by_hour = replicate 24 0, by_day = replicate 7 0,
      questions = 0, exclamations = 0, long_messages = 0, short_messages = 0,
      first_message = None, last_message = None, conversations_started = 0,
      replied_to_count = 0, weekend_messages = 0, late_night_messages = 0,
      morning_messages = 0, message_lengths = []\<rparr>"

definition new_stats :: "person stats" where
  "new_stats =
     \<lparr>total_messages = 0, total_media = 0, total_chars = 0, by_person = [],
      by_month = [], by_hour = replicate 24 0, by_day_of_week = replicate 7 0,
      daily_counts = [], longest_message = \<lparr>l_sender = [], l_length = 0, preview = []\<rparr>,
      active_days = []\<rparr>"

text \<open>
  \<open>d[k] += 1\<close> on a \<open>defaultdict(int)\<close>, \<open>xs[i] += 1\<close> on a list (the index is an
  hour or a day of the week of a \<open>datetime\<close>, in range for the lists of 24 and of 7
  counters), and \<open>by_person[k]\<close>.
\<close>

definition bump :: "'k \<Rightarrow> ('k \<times> nat) list \<Rightarrow> ('k \<times> nat) list" where
  "bump k d = AList.update k (case map_of d k of None \<Rightarrow> 1 | Some n \<Rightarrow> n + 1) d"

definition incr :: "nat \<Rightarrow> nat list \<Rightarrow> nat list" where
  "incr i xs = xs[i := xs ! i + 1]"

definition person_of :: "(ustr \<times> person) list \<Rightarrow> ustr \<Rightarrow> person" where
  "person_of d k = (case map_of d k of None \<Rightarrow> new_person | Some p \<Rightarrow> p)"

definition date_key :: "datetime \<Rightarrow> date_key" where
  "date_key d = (year d, month d, day d)"

text \<open>\<^verbatim>\<open>(msg['date'] - prev_message['date']).total_seconds() / 60\<close>\<close>

definition time_diff :: "message \<Rightarrow> message \<Rightarrow> rat" where
  "time_diff msg prev = of_int (total_seconds (date msg) - total_seconds (date prev)) / 60"

text \<open>What one message that is not a system message does to the record of its sender.\<close>

definition count_person :: "message \<Rightarrow> message option \<Rightarrow> person \<Rightarrow> person" where
  "count_person msg prev_message person =
     (let h = hour (date msg);
          day_of_week = (weekday (date msg) + 1) mod 7;
          p1 = person\<lparr>p_messages := p_messages person + 1,
                       p_active_days := List.insert (date_key (date msg)) (p_active_days person),
                       p_by_hour := incr h (p_by_hour person),
                       by_day := incr day_of_week (by_day person)\<rparr>;
          p2 = (if day_of_week = 0 \<or> day_of_week = 6
                then p1\<lparr>weekend_messages := weekend_messages p1 + 1\<rparr> else p1);
          p3 = (if h \<ge> 23 \<or> h < 4
                then p2\<lparr>late_night_messages := late_night_messages p2 + 1\<rparr> else p2);
          p4 = (if 5 \<le> h \<and> h < 9
                then p3\<lparr>morning_messages := morning_messages p3 + 1\<rparr> else p3);
          p5 = p4\<lparr>first_message := (case first_message p4 of
                                        None \<Rightarrow> Some (date msg) | Some d \<Rightarrow> Some d),
                   last_message := Some (date msg)\<rparr>;
          n = length (content msg);
          p6 = (if is_media msg then p5\<lparr>p_media := p_media p5 + 1\<rparr>
                else p5\<lparr>p_total_chars := p_total_chars p5 + n,
                        message_lengths := message_lengths p5 @ [n],
                        long_messages := (if n > 200 then long_messages p5 + 1
                                          else long_messages p5),
                        short_messages := (if \<not> n > 200 \<and> n < 10 then short_messages p5 + 1
                                           else short_messages p5),
                        questions := (if 63 \<in> set (content msg) then questions p5 + 1
                                      else questions p5),
                        exclamations := (if 33 \<in> set (content msg) then exclamations p5 + 1
                                         else exclamations p5)\<rparr>)
      in case prev_message of
           None \<Rightarrow> p6
         | Some prev \<Rightarrow>
             (let p7 = (if time_diff msg prev > 120
                        then p6\<lparr>conversations_started := conversations_started p6 + 1\<rparr>
                        else p6)
              in if sender prev \<noteq> sender msg \<and> 0 < time_diff msg prev \<and> time_diff msg prev < 60
                 then p7\<lparr>response_times := response_times p7 @ [time_diff msg prev]\<rparr>
                 else p7))"

text \<open>
  \<^verbatim>\<open>
  if prev_message['sender'] != msg['sender'] and time_diff < 30:
      prev_sender = normalize_name(prev_message['sender'])
      if prev_sender in stats['by_person']:
          stats['by_person'][prev_sender]['replied_to_count'] += 1
  \<close>
\<close>

definition credit_reply ::
  "message \<Rightarrow> message option \<Rightarrow> (ustr \<times> person) list \<Rightarrow> (ustr \<times> person) list" where
  "credit_reply msg prev_message d =
     (case prev_message of
        None \<Rightarrow> d
      | Some prev \<Rightarrow>
          if sender prev \<noteq> sender msg \<and> time_diff msg prev < 30
          then (case map_of d (normalize_name (sender prev)) of
                  None \<Rightarrow> d
                | Some q \<Rightarrow> AList.update (normalize_name (sender prev))
                             (q\<lparr>replied_to_count := replied_to_count q + 1\<rparr>) d)
          else d)"

text \<open>One turn of the loop over the messages: the statistics and \<open>prev_message\<close>.\<close>

definition step :: "person stats \<times> message option \<Rightarrow> message \<Rightarrow> person stats \<times> message option" where
  "step acc msg =
     (case acc of (st, prev_message) \<Rightarrow>
        if is_system msg then (st, prev_message)
        else
          (let name = normalize_name (sender msg);
               dk = date_key (date msg);
               n = length (content msg);
               person = count_person msg prev_message (person_of (by_person st) name);
               st1 = st\<lparr>total_messages := total_messages st + 1,
                        active_days := List.insert dk (active_days st),
                        by_hour := incr (hour (date msg)) (by_hour st),
                        by_day_of_week := incr ((weekday (date msg) + 1) mod 7) (by_day_of_week st),
                        by_month := bump (year (date msg), month (date msg)) (by_month st),
                        daily_counts := bump dk (daily_counts st)\<rparr>;
               st2 = (if is_media msg then st1\<lparr>total_media := total_media st1 + 1\<rparr>
                      else st1\<lparr>total_chars := total_chars st1 + n,
                               longest_message :=
                                 (if n > l_length (longest_message st1)
                                  then \<lparr>l_sender = name, l_length = n,
                                        preview = take 150 (content msg)
                                                  @ (if n > 150 then asc ''...'' else [])\<rparr>
                                  else longest_message st1)\<rparr>)
           in (st2\<lparr>by_person :=
                      credit_reply msg prev_message (AList.update name person (by_person st2))\<rparr>,
               Some msg)))"

definition aggregate :: "message list \<Rightarrow> person stats \<times> message option" where
  "aggregate msgs = foldl step (new_stats, None) msgs"

subsection \<open>The derived figures\<close>

text \<open>
  The averages and the rates are computed by the source in binary floating point and
  then rounded with \<open>round\<close>. That arithmetic is not modelled: the four computations
  are parameters of the finalisation, each a function of the exact operands.
\<close>

record floats =
  round_div :: "nat \<Rightarrow> nat \<Rightarrow> int"  \<comment> \<open>\<open>round(a / b)\<close>\<close>
  round1_mean :: "rat list \<Rightarrow> rat"  \<comment> \<open>\<open>round(sum(xs) / len(xs), 1)\<close>\<close>
  round1_min :: "rat list \<Rightarrow> rat"  \<comment> \<open>\<open>round(min(xs), 1)\<close>\<close>
  round1_percent :: "nat \<Rightarrow> nat \<Rightarrow> rat"  \<comment> \<open>\<open>round(a / b * 100, 1)\<close>\<close>

text \<open>\<open>xs.index(max(xs))\<close> on a list that is not empty: the first place of the maximum.\<close>

fun index_of :: "nat \<Rightarrow> nat list \<Rightarrow> nat" where
  "index_of v [] = 0"
| "index_of v (x # xs) = (if x = v then 0 else Suc (index_of v xs))"

definition peak :: "nat list \<Rightarrow> nat" where
  "peak xs = index_of (foldl max 0 xs) xs"

record person_final = person +
  active_days_count :: nat
  avg_chars :: int
  avg_response :: "rat option"
  fastest_response :: "rat option"
  peak_hour :: nat
  peak_day :: nat
  engagement_rate :: rat
  media_ratio :: rat

text \<open>
  The body of the loop over \<open>by_person\<close>. The two \<open>del\<close> statements take the keys
  \<open>response_times\<close> and \<open>message_lengths\<close> out of the dictionary; the record keeps the
  fields, which nothing reads afterwards.
\<close>

definition finalize :: "floats \<Rightarrow> person \<Rightarrow> person_final" where
  "finalize F p =
     (let text_messages = p_messages p - p_media p;
          rts = response_times p
      in person.extend p
           \<lparr>active_days_count = length (p_active_days p),
            avg_chars = (if text_messages > 0 then round_div F (p_total_chars p) text_messages
                         else 0),
            avg_response = (if rts \<noteq> [] then Some (round1_mean F rts) else None),
            fastest_response = (if rts \<noteq> [] then Some (round1_min F rts) else None),
            peak_hour = peak (p_by_hour p),
            peak_day = peak (by_day p),
            engagement_rate = (if p_messages p > 0
                               then round1_percent F (replied_to_count p) (p_messages p)
                               else 0),
            media_ratio = (if p_messages p > 0
                           then round1_percent F (p_media p) (p_messages p)
                           else 0)\<rparr>)"

text \<open>
  \<^verbatim>\<open>max(stats['daily_counts'].items(), key=lambda x: x[1])\<close>: the first item with the
  greatest count; \<open>None\<close> is the \<open>ValueError\<close> that \<open>max\<close> raises on an empty sequence.
\<close>

fun max_by_count :: "('k \<times> nat) list \<Rightarrow> ('k \<times> nat) option" where
  "max_by_count [] = None"
| "max_by_count (x # xs) = Some (foldl (\<lambda>b y. if snd y > snd b then y else b) x xs)"

record 'p stats_final = "'p stats" +
  most_active_day :: "date_key \<times> nat"
  total_days :: nat

definition calculate_stats :: "floats \<Rightarrow> message list \<Rightarrow> error + person_final stats_final" where
  "calculate_stats F msgs =
     (let st = fst (aggregate msgs);
          people = map (\<lambda>(k, p). (k, finalize F p)) (by_person st)
      in case max_by_count (daily_counts st) of
           None \<Rightarrow> Inl ValueError
         | Some d \<Rightarrow>
             Inr \<lparr>total_messages = total_messages st, total_media = total_media st,
                  total_chars = total_chars st, by_person = people,
                  by_month = by_month st, by_hour = by_hour st,
                  by_day_of_week = by_day_of_week st, daily_counts = daily_counts st,
                  longest_message = longest_message st, active_days = active_days st,
                  most_active_day = d, total_days = length (active_days st)\<rparr>)"

section \<open>The matcher\<close>

lemma lit_Some: "lit c s = Some r \<longleftrightarrow> s = c # r"
  by (cases s) auto

lemma digits12_Some: "digits12 s = Some (ds, r) \<Longrightarrow> s = ds @ r \<and> digs12 ds"
  by (induction s rule: digits12.induct) (auto simp: digs12_def split: if_splits)

lemma digits2_Some: "digits2 s = Some (ds, r) \<Longrightarrow> s = ds @ r \<and> digs2 ds"
  by (induction s rule: digits2.induct) (auto simp: digs2_def split: if_splits)

lemma length_one: "length ds = Suc 0 \<longleftrightarrow> (\<exists>a. ds = [a])"
  by (cases ds) auto

lemma length_two: "length ds = 2 \<longleftrightarrow> (\<exists>a b. ds = [a, b])"
  by (cases ds; cases "tl ds") auto

lemma digits12_reread: "digs12 ds \<Longrightarrow> \<not> digit c \<Longrightarrow> digits12 (ds @ c # r) = Some (ds, c # r)"
  by (auto simp: length_one length_two digs12_def)

lemma digits2_reread: "digs2 ds \<Longrightarrow> digits2 (ds @ r) = Some (ds, r)"
  by (auto simp: length_two digs2_def)

lemma split_on_none: "sep \<notin> set xs \<Longrightarrow> split_on sep xs = [xs]"
  by (induction xs) auto

lemma split_on_first: "sep \<notin> set xs \<Longrightarrow> split_on sep (xs @ sep # ys) = xs # split_on sep ys"
  by (induction xs) auto

lemma not_digit_slash: "\<not> digit 47"
  by (simp add: digit_def decimal_def decimal_zeros_def)

lemma digit_no_slash: "list_all digit ds \<Longrightarrow> 47 \<notin> set ds"
  using not_digit_slash by (auto simp: list_all_iff)

lemma int_of_digs12: "digs12 ds \<Longrightarrow> \<exists>n. int_of ds = Some n"
  by (auto simp: int_of_def digs12_def)

lemma int_of_digs2: "digs2 ds \<Longrightarrow> \<exists>n. int_of ds = Some n"
  by (auto simp: int_of_def digs2_def)

lemma date_group_Some:
  assumes "date_group s = Some (d, r)"
  shows "\<exists>mo dd yy. d = mo @ [47] @ dd @ [47] @ yy \<and> digs12 mo \<and> digs12 dd \<and> digs2 yy"
  using assms unfolding date_group_def
  by (auto simp: Option.bind_eq_Some_conv dest!: digits12_Some digits2_Some)

lemma clock_Some:
  assumes "clock s = Some ((hh, mi, ss), r)"
  shows "s = hh @ [58] @ mi @ [58] @ ss @ r \<and> digs12 hh \<and> digs2 mi \<and> digs2 ss"
  using assms unfolding clock_def
  by (auto simp: Option.bind_eq_Some_conv lit_Some dest!: digits12_Some digits2_Some)

lemma not_digit_colon: "\<not> digit 58"
  by (simp add: digit_def decimal_def decimal_zeros_def)

lemma clock_reread:
  assumes "digs12 hh" "digs2 mi" "digs2 ss"
  shows "clock (hh @ [58] @ mi @ [58] @ ss @ r) = Some ((hh, mi, ss), r)"
  using assms unfolding clock_def
  by (simp add: digits12_reread digits2_reread not_digit_colon)

text \<open>The marker that \<open>meridiem\<close> reads is empty or spells AM or PM in some case.\<close>

lemma meridiem_cases:
  assumes "meridiem s = (ap, r)"
  shows "ap = [] \<or> upper ap = asc ''AM'' \<or> upper ap = asc ''PM''"
  using assms
  by (induction s rule: meridiem.induct) (auto simp: upper_def asc_def split: if_splits)

lemma meridiem_shape:
  assumes "meridiem s = (ap, r)"
  shows "ap = [] \<or> (\<exists>a m. ap = [a, m] \<and> (a = 65 \<or> a = 97 \<or> a = 80 \<or> a = 112)
                           \<and> (m = 77 \<or> m = 109))"
proof (cases s rule: meridiem.cases)
  case (1 a m r')
  with assms show ?thesis
    by (cases "(a = 65 \<or> a = 97 \<or> a = 80 \<or> a = 112) \<and> (m = 77 \<or> m = 109)") auto
qed (use assms in auto)

lemma meridiem_reread:
  assumes "meridiem s = (ap, r)" and "list_all space ws"
  shows "meridiem (dropWhile space (ws @ ap)) = (ap, [])"
proof -
  have 1: "dropWhile space (ws @ ap) = dropWhile space ap"
    using assms(2) by (simp add: dropWhile_append2 list_all_iff)
  from meridiem_shape[OF assms(1)] show ?thesis
  proof
    assume "ap = []"
    then show ?thesis unfolding 1 by simp
  next
    assume "\<exists>a m. ap = [a, m] \<and> (a = 65 \<or> a = 97 \<or> a = 80 \<or> a = 112) \<and> (m = 77 \<or> m = 109)"
    then obtain a m where ap: "ap = [a, m]" and a: "a = 65 \<or> a = 97 \<or> a = 80 \<or> a = 112"
      and m: "m = 77 \<or> m = 109"
      by blast
    from a have "\<not> space a"
      by (auto simp: space_def)
    with a m 1 show ?thesis
      by (simp add: ap)
  qed
qed

lemma time_group_Some:
  assumes "time_group s = Some (t, r)"
  shows "\<exists>hh mi ss ws ap. t = hh @ [58] @ mi @ [58] @ ss @ ws @ ap \<and>
           digs12 hh \<and> digs2 mi \<and> digs2 ss \<and> list_all space ws \<and>
           (ap = [] \<or> upper ap = asc ''AM'' \<or> upper ap = asc ''PM'') \<and>
           time_match t = Some (hh, mi, ss, if ap = [] then None else Some ap)"
proof -
  from assms obtain hh mi ss s1 where c: "clock s = Some ((hh, mi, ss), s1)"
    and t: "t = hh @ [58] @ mi @ [58] @ ss @ takeWhile space s1 @ fst (meridiem (dropWhile space s1))"
    unfolding time_group_def by (auto simp: Option.bind_eq_Some_conv split_def)
  define ws where "ws = takeWhile space s1"
  define ap where "ap = fst (meridiem (dropWhile space s1))"
  have m: "meridiem (dropWhile space s1) = (ap, snd (meridiem (dropWhile space s1)))"
    by (simp add: ap_def)
  have ws: "list_all space ws"
    by (auto simp: ws_def list_all_iff dest: set_takeWhileD)
  have d: "digs12 hh" "digs2 mi" "digs2 ss"
    using clock_Some[OF c] by auto
  have "clock t = Some ((hh, mi, ss), ws @ ap)"
    using clock_reread[OF d, of "ws @ ap"] by (simp add: t ws_def ap_def)
  then have tm: "time_match t = Some (hh, mi, ss, if ap = [] then None else Some ap)"
    unfolding time_match_def by (simp add: meridiem_reread[OF m ws])
  show ?thesis
    using t d ws meridiem_cases[OF m] tm
    by (intro exI[of _ hh] exI[of _ mi] exI[of _ ss] exI[of _ ws] exI[of _ ap])
       (simp add: ws_def ap_def)
qed

lemma split_date:
  assumes "digs12 mo" "digs12 dd" "digs2 yy"
  shows "split_on 47 (mo @ [47] @ dd @ [47] @ yy) = [mo, dd, yy]"
  using assms by (simp add: split_on_first split_on_none digit_no_slash digs12_def digs2_def)

text \<open>What a match says about the first two groups.\<close>

lemma message_match_groups:
  assumes "message_match s = Some (d, t, n, c)"
  shows "\<exists>mo dd yy hh mi ss ws ap.
           d = mo @ [47] @ dd @ [47] @ yy \<and> digs12 mo \<and> digs12 dd \<and> digs2 yy \<and>
           t = hh @ [58] @ mi @ [58] @ ss @ ws @ ap \<and>
           digs12 hh \<and> digs2 mi \<and> digs2 ss \<and> list_all space ws \<and>
           (ap = [] \<or> upper ap = asc ''AM'' \<or> upper ap = asc ''PM'') \<and>
           time_match t = Some (hh, mi, ss, if ap = [] then None else Some ap)"
proof -
  from assms obtain s1 s2 s3 s4 where a: "date_group s1 = Some (d, s2)"
    and b: "time_group s3 = Some (t, s4)"
    unfolding message_match_def
    apply (simp only: Option.bind_eq_Some_conv split_paired_Ex prod.case)
    apply (elim exE conjE)
    apply blast
    done
  from date_group_Some[OF a] obtain mo dd yy where
    1: "d = mo @ [47] @ dd @ [47] @ yy" "digs12 mo" "digs12 dd" "digs2 yy"
    by blast
  from time_group_Some[OF b] obtain hh mi ss ws ap where
    2: "t = hh @ [58] @ mi @ [58] @ ss @ ws @ ap" "digs12 hh" "digs2 mi" "digs2 ss"
       "list_all space ws" "ap = [] \<or> upper ap = asc ''AM'' \<or> upper ap = asc ''PM''"
       "time_match t = Some (hh, mi, ss, if ap = [] then None else Some ap)"
    by blast
  from 1 2 show ?thesis
    by blast
qed

lemma match_line_groups:
  assumes "match_line line = Some (d, t, n, c)"
  shows "\<exists>mo dd yy hh mi ss ws ap.
           d = mo @ [47] @ dd @ [47] @ yy \<and> digs12 mo \<and> digs12 dd \<and> digs2 yy \<and>
           t = hh @ [58] @ mi @ [58] @ ss @ ws @ ap \<and>
           digs12 hh \<and> digs2 mi \<and> digs2 ss \<and> list_all space ws \<and>
           (ap = [] \<or> upper ap = asc ''AM'' \<or> upper ap = asc ''PM'') \<and>
           time_match t = Some (hh, mi, ss, if ap = [] then None else Some ap)"
proof -
  from assms have "message_match (lstrip_marks line) = Some (d, t, n, c)
      \<or> message_match line = Some (d, t, n, c)"
    by (auto simp: match_line_def split: option.splits)
  then show ?thesis
    using message_match_groups by blast
qed

text \<open>
  The fields that \<open>build_message\<close> reads out of the groups of a match: it never
  fails outside the \<open>datetime\<close> constructor.
\<close>

lemma build_message_fields:
  assumes "match_line line = Some (d, t, n, c)"
  shows "\<exists>mo dd yy hh mi ss ws ap mo' dd' y h mi' ss'.
           d = mo @ [47] @ dd @ [47] @ yy \<and> digs12 mo \<and> digs12 dd \<and> digs2 yy \<and>
           t = hh @ [58] @ mi @ [58] @ ss @ ws @ ap \<and>
           digs12 hh \<and> digs2 mi \<and> digs2 ss \<and> list_all space ws \<and>
           (ap = [] \<or> upper ap = asc ''AM'' \<or> upper ap = asc ''PM'') \<and>
           int_of yy = Some y \<and> int_of hh = Some h \<and>
           build_message (d, t, n, c) =
             (case mk_datetime (full_year y) mo' dd'
                     (convert_hours (if ap = [] then None else Some ap) h) mi' ss' of
                None \<Rightarrow> Rejected
              | Some dt \<Rightarrow> Built (new_message dt n c))"
proof -
  from match_line_groups[OF assms] obtain mo dd yy hh mi ss ws ap where
    d: "d = mo @ [47] @ dd @ [47] @ yy" and dg: "digs12 mo" "digs12 dd" "digs2 yy"
    and t: "t = hh @ [58] @ mi @ [58] @ ss @ ws @ ap"
    and tg: "digs12 hh" "digs2 mi" "digs2 ss" and ws: "list_all space ws"
    and ap: "ap = [] \<or> upper ap = asc ''AM'' \<or> upper ap = asc ''PM''"
    and tm: "time_match t = Some (hh, mi, ss, if ap = [] then None else Some ap)"
    by blast
  obtain mo' dd' y where i1: "int_of mo = Some mo'" "int_of dd = Some dd'" "int_of yy = Some y"
    using int_of_digs12[OF dg(1)] int_of_digs12[OF dg(2)] int_of_digs2[OF dg(3)] by blast
  obtain h mi' ss' where i2: "int_of hh = Some h" "int_of mi = Some mi'" "int_of ss = Some ss'"
    using int_of_digs12[OF tg(1)] int_of_digs2[OF tg(2)] int_of_digs2[OF tg(3)] by blast
  have b: "build_message (d, t, n, c) =
             (case mk_datetime (full_year y) mo' dd'
                     (convert_hours (if ap = [] then None else Some ap) h) mi' ss' of
                None \<Rightarrow> Rejected
              | Some dt \<Rightarrow> Built (new_message dt n c))"
    unfolding build_message_def
    by (simp add: d split_date[OF dg, simplified] tm i1 i2 ints3_def)
  show ?thesis
    using d dg t tg ws ap i1(3) i2(1) b by blast
qed

lemma build_message_no_crash:
  assumes "match_line line = Some g"
  shows "build_message g \<noteq> Crashed e"
proof -
  obtain d t n c where g: "g = (d, t, n, c)"
    by (cases g) auto
  from build_message_fields[OF assms[unfolded g]] show ?thesis
    unfolding g by (auto split: option.splits)
qed


lemma mk_datetime_Some:
  "mk_datetime y mo d h mi s = Some dt \<Longrightarrow> year dt = y \<and> hour dt = h"
  by (auto simp: mk_datetime_def split: if_splits)

lemma date_new_message: "date (new_message dt n c) = dt"
  by (simp add: new_message_def Let_def)

text \<open>The year and the hour of a message, from the digits of its line.\<close>

lemma built_date:
  assumes "match_line line = Some (d, t, n, c)" and "build_message (d, t, n, c) = Built m"
  shows "\<exists>mo dd yy hh mi ss ws ap y h.
           d = mo @ [47] @ dd @ [47] @ yy \<and> digs12 mo \<and> digs12 dd \<and> digs2 yy \<and>
           t = hh @ [58] @ mi @ [58] @ ss @ ws @ ap \<and>
           digs12 hh \<and> digs2 mi \<and> digs2 ss \<and> list_all space ws \<and>
           (ap = [] \<or> upper ap = asc ''AM'' \<or> upper ap = asc ''PM'') \<and>
           int_of yy = Some y \<and> int_of hh = Some h \<and>
           year (date m) = full_year y \<and>
           hour (date m) = convert_hours (if ap = [] then None else Some ap) h"
proof -
  from build_message_fields[OF assms(1)] obtain mo dd yy hh mi ss ws ap mo' dd' y h mi' ss' where
    f: "d = mo @ [47] @ dd @ [47] @ yy" "digs12 mo" "digs12 dd" "digs2 yy"
       "t = hh @ [58] @ mi @ [58] @ ss @ ws @ ap" "digs12 hh" "digs2 mi" "digs2 ss"
       "list_all space ws" "ap = [] \<or> upper ap = asc ''AM'' \<or> upper ap = asc ''PM''"
       "int_of yy = Some y" "int_of hh = Some h"
    and b: "build_message (d, t, n, c) =
             (case mk_datetime (full_year y) mo' dd'
                     (convert_hours (if ap = [] then None else Some ap) h) mi' ss' of
                None \<Rightarrow> Rejected
              | Some dt \<Rightarrow> Built (new_message dt n c))"
    by blast
  from b assms(2) obtain dt where
    dt: "mk_datetime (full_year y) mo' dd'
           (convert_hours (if ap = [] then None else Some ap) h) mi' ss' = Some dt"
    and m: "m = new_message dt n c"
    by (auto split: option.splits)
  have "year (date m) = full_year y"
    "hour (date m) = convert_hours (if ap = [] then None else Some ap) h"
    using mk_datetime_Some[OF dt] by (simp_all add: m date_new_message)
  with f show ?thesis
    by blast
qed

lemmas parse_defs = parse_chat_def init_def result_def flush_def line_step_def match_line_def
  message_match_def date_group_def clock_def time_group_def sender_group_def content_group_def
  build_message_def ints3_def int_of_def time_match_def mk_datetime_def days_in_month_def
  is_leap_def full_year_def convert_hours_def new_message_def strip_def rstrip_nl_def
  lstrip_marks_def mark_def lower_def upper_def asc_def digit_def decimal_def decimal_zeros_def
  space_def append_content_def Let_def

lemma year_24:
  "map_sum id (map (\<lambda>m. year (date m)))
     (parse_chat [asc ''[11/25/24, 09:00:00 AM] Alice: Hello'']) = Inr [2024]"
  by (simp add: parse_defs)

lemma year_99:
  "map_sum id (map (\<lambda>m. year (date m)))
     (parse_chat [asc ''[11/25/99, 09:00:00 AM] Alice: Hello'']) = Inr [1999]"
  by (simp add: parse_defs)

lemma year_49:
  "map_sum id (map (\<lambda>m. year (date m)))
     (parse_chat [asc ''[11/25/49, 09:00:00 AM] Alice: Hello'']) = Inr [2049]"
  by (simp add: parse_defs)

lemma year_50:
  "map_sum id (map (\<lambda>m. year (date m)))
     (parse_chat [asc ''[11/25/50, 09:00:00 AM] Alice: Hello'']) = Inr [1950]"
  by (simp add: parse_defs)

lemma hour_12am:
  "map_sum id (map (\<lambda>m. hour (date m)))
     (parse_chat [asc ''[11/25/24, 12:15:00 AM] Alice: Hello'']) = Inr [0]"
  by (simp add: parse_defs)

lemma hour_12pm:
  "map_sum id (map (\<lambda>m. hour (date m)))
     (parse_chat [asc ''[11/25/24, 12:15:00 PM] Alice: Hello'']) = Inr [12]"
  by (simp add: parse_defs)

lemma hour_7pm:
  "map_sum id (map (\<lambda>m. hour (date m)))
     (parse_chat [asc ''[11/25/24, 07:30:00 PM] Alice: Hello'']) = Inr [19]"
  by (simp add: parse_defs)

lemma hour_plain:
  "map_sum id (map (\<lambda>m. hour (date m)))
     (parse_chat [asc ''[11/25/24, 19:30:00] Alice: Hello'']) = Inr [19]"
  by (simp add: parse_defs)

lemma sample_match:
  "match_line (asc ''[11/25/24, 09:00:00 AM] Alice: Hello'')
     = Some (asc ''11/25/24'', asc ''09:00:00 AM'', asc ''Alice'', asc ''Hello'')"
  by (simp add: parse_defs)

lemma sample_build:
  "build_message (asc ''11/25/24'', asc ''09:00:00 AM'', asc ''Alice'', asc ''Hello'')
     = Built sample_message"
  by (simp add: parse_defs sample_message_def)

section \<open>The claims about reading the date and the time\<close>

text \<open>
  C9. For every parsed message-start line, the two-digit year \<open>y\<close> is resolved by the
  pivot rule: below 50 the year is \<open>2000 + y\<close>, otherwise \<open>1900 + y\<close>. Here \<open>yy\<close> is
  the run of two digits after the second slash of the date group of the line and \<open>m\<close>
  the message made from the line. In particular "24" gives 2024, "99" gives 1999, "49"
  gives 2049 and "50" gives 1950.
\<close>

theorem year_pivot:
  "(\<forall>line d t n c m.
      match_line line = Some (d, t, n, c) \<longrightarrow> build_message (d, t, n, c) = Built m \<longrightarrow>
      (\<exists>mo dd yy y. d = mo @ [47] @ dd @ [47] @ yy \<and> digs12 mo \<and> digs12 dd \<and> digs2 yy \<and>
         int_of yy = Some y \<and>
         year (date m) = (if y < 50 then 2000 + y else 1900 + y)))
   \<and> map_sum id (map (\<lambda>m. year (date m)))
       (parse_chat [asc ''[11/25/24, 09:00:00 AM] Alice: Hello'']) = Inr [2024]
   \<and> map_sum id (map (\<lambda>m. year (date m)))
       (parse_chat [asc ''[11/25/99, 09:00:00 AM] Alice: Hello'']) = Inr [1999]
   \<and> map_sum id (map (\<lambda>m. year (date m)))
       (parse_chat [asc ''[11/25/49, 09:00:00 AM] Alice: Hello'']) = Inr [2049]
   \<and> map_sum id (map (\<lambda>m. year (date m)))
       (parse_chat [asc ''[11/25/50, 09:00:00 AM] Alice: Hello'']) = Inr [1950]"
proof -
  have "\<exists>mo dd yy y. d = mo @ [47] @ dd @ [47] @ yy \<and> digs12 mo \<and> digs12 dd \<and> digs2 yy \<and>
         int_of yy = Some y \<and> year (date m) = (if y < 50 then 2000 + y else 1900 + y)"
    if "match_line line = Some (d, t, n, c)" "build_message (d, t, n, c) = Built m"
    for line d t n c m
    using built_date[OF that] unfolding full_year_def by blast
  then show ?thesis
    using year_24 year_99 year_49 year_50 by blast
qed

theorem year_pivot_witness:
  "match_line (asc ''[11/25/24, 09:00:00 AM] Alice: Hello'')
     = Some (asc ''11/25/24'', asc ''09:00:00 AM'', asc ''Alice'', asc ''Hello'')
   \<and> build_message (asc ''11/25/24'', asc ''09:00:00 AM'', asc ''Alice'', asc ''Hello'')
     = Built sample_message
   \<and> (\<exists>mo dd yy y. asc ''11/25/24'' = mo @ [47] @ dd @ [47] @ yy \<and> digs12 mo \<and> digs12 dd
         \<and> digs2 yy \<and> int_of yy = Some y
         \<and> year (date sample_message) = (if y < 50 then 2000 + y else 1900 + y))"
  by (intro conjI)
     (rule sample_match, rule sample_build,
      rule year_pivot[THEN conjunct1, rule_format, OF sample_match sample_build])

text \<open>
  C8. For every parsed message-start line the time is converted from 12-hour to 24-hour
  form. The time group of the line is the digits \<open>hh\<close> of the hour, the minutes, the
  seconds, white space and the marker \<open>ap\<close>. With the marker PM (in any case) the hour
  of the message is \<open>h + 12\<close>, and 12 stays 12; with AM it is \<open>h\<close>, and 12 becomes 0;
  with no marker it is the hour as written. "12:15:00 AM" gives hour 0, "12:15:00 PM"
  hour 12, "07:30:00 PM" hour 19, and "19:30:00" hour 19.
\<close>

theorem meridiem_conversion:
  "(\<forall>line d t n c m.
      match_line line = Some (d, t, n, c) \<longrightarrow> build_message (d, t, n, c) = Built m \<longrightarrow>
      (\<exists>hh mi ss ws ap h. t = hh @ [58] @ mi @ [58] @ ss @ ws @ ap \<and>
         digs12 hh \<and> digs2 mi \<and> digs2 ss \<and> list_all space ws \<and> int_of hh = Some h \<and>
         (if ap = [] then hour (date m) = h
          else if upper ap = asc ''PM'' then hour (date m) = (if h = 12 then 12 else h + 12)
          else upper ap = asc ''AM'' \<and> hour (date m) = (if h = 12 then 0 else h))))
   \<and> map_sum id (map (\<lambda>m. hour (date m)))
       (parse_chat [asc ''[11/25/24, 12:15:00 AM] Alice: Hello'']) = Inr [0]
   \<and> map_sum id (map (\<lambda>m. hour (date m)))
       (parse_chat [asc ''[11/25/24, 12:15:00 PM] Alice: Hello'']) = Inr [12]
   \<and> map_sum id (map (\<lambda>m. hour (date m)))
       (parse_chat [asc ''[11/25/24, 07:30:00 PM] Alice: Hello'']) = Inr [19]
   \<and> map_sum id (map (\<lambda>m. hour (date m)))
       (parse_chat [asc ''[11/25/24, 19:30:00] Alice: Hello'']) = Inr [19]"
proof -
  have "\<exists>hh mi ss ws ap h. t = hh @ [58] @ mi @ [58] @ ss @ ws @ ap \<and>
         digs12 hh \<and> digs2 mi \<and> digs2 ss \<and> list_all space ws \<and> int_of hh = Some h \<and>
         (if ap = [] then hour (date m) = h
          else if upper ap = asc ''PM'' then hour (date m) = (if h = 12 then 12 else h + 12)
          else upper ap = asc ''AM'' \<and> hour (date m) = (if h = 12 then 0 else h))"
    if "match_line line = Some (d, t, n, c)" "build_message (d, t, n, c) = Built m"
    for line d t n c m
  proof -
    from built_date[OF that] obtain hh mi ss ws ap h where
      t: "t = hh @ [58] @ mi @ [58] @ ss @ ws @ ap" "digs12 hh" "digs2 mi" "digs2 ss"
         "list_all space ws" "int_of hh = Some h"
      and ap: "ap = [] \<or> upper ap = asc ''AM'' \<or> upper ap = asc ''PM''"
      and h: "hour (date m) = convert_hours (if ap = [] then None else Some ap) h"
      by blast
    have "if ap = [] then hour (date m) = h
          else if upper ap = asc ''PM'' then hour (date m) = (if h = 12 then 12 else h + 12)
          else upper ap = asc ''AM'' \<and> hour (date m) = (if h = 12 then 0 else h)"
      using ap h by (auto simp: convert_hours_def asc_def)
    with t show ?thesis
      by blast
  qed
  then show ?thesis
    using hour_12am hour_12pm hour_7pm hour_plain by blast
qed

theorem meridiem_conversion_witness:
  "match_line (asc ''[11/25/24, 09:00:00 AM] Alice: Hello'')
     = Some (asc ''11/25/24'', asc ''09:00:00 AM'', asc ''Alice'', asc ''Hello'')
   \<and> build_message (asc ''11/25/24'', asc ''09:00:00 AM'', asc ''Alice'', asc ''Hello'')
     = Built sample_message
   \<and> (\<exists>hh mi ss ws ap h. asc ''09:00:00 AM'' = hh @ [58] @ mi @ [58] @ ss @ ws @ ap \<and>
         digs12 hh \<and> digs2 mi \<and> digs2 ss \<and> list_all space ws \<and> int_of hh = Some h \<and>
         (if ap = [] then hour (date sample_message) = h
          else if upper ap = asc ''PM''
               then hour (date sample_message) = (if h = 12 then 12 else h + 12)
               else upper ap = asc ''AM''
                    \<and> hour (date sample_message) = (if h = 12 then 0 else h)))"
  by (intro conjI)
     (rule sample_match, rule sample_build,
      rule meridiem_conversion[THEN conjunct1, rule_format, OF sample_match sample_build])

section \<open>The loop of the parser\<close>

lemma strip_empty_iff: "strip s = [] \<longleftrightarrow> list_all space s"
proof
  assume "strip s = []"
  then have "\<forall>x\<in>set (dropWhile space s). space x"
    by (simp add: strip_def dropWhile_eq_Nil_conv)
  then have "dropWhile space s = []"
    using hd_dropWhile[of space s] hd_in_set[of "dropWhile space s"] by blast
  then show "list_all space s"
    by (simp add: dropWhile_eq_Nil_conv list_all_iff)
next
  assume "list_all space s"
  then have d: "dropWhile space s = []"
    by (simp add: dropWhile_eq_Nil_conv list_all_iff)
  show "strip s = []"
    unfolding strip_def d by simp
qed

lemma message_match_blank: "list_all space s \<Longrightarrow> message_match s = None"
  by (cases s) (auto simp: message_match_def space_def)

lemma lstrip_marks_blank: "list_all space s \<Longrightarrow> lstrip_marks s = s"
  by (cases s) (auto simp: lstrip_marks_def space_def mark_def)

lemma match_line_blank: "list_all space s \<Longrightarrow> match_line s = None"
  by (simp add: match_line_def lstrip_marks_blank message_match_blank)

lemma store_flush [simp]: "store (flush s) = store s"
  by (simp add: flush_def split: option.splits)

lemma current_flush [simp]: "current_message (flush s) = current_message s"
  by (simp add: flush_def split: option.splits)

lemma line_step_blank: "blank l \<Longrightarrow> line_step s l = Inr s"
  by (auto simp: blank_def line_step_def Let_def strip_empty_iff match_line_blank
           split: option.splits)

lemma line_step_start:
  "start_of l = Some m \<Longrightarrow>
   line_step s l = Inr ((flush s)\<lparr>store := store s @ [m],
                                  current_message := Some (length (store s))\<rparr>)"
  by (auto simp: start_of_def line_step_def Let_def split: if_splits option.splits built.splits)

lemma line_step_continuation:
  "continuation_of l = Some t \<Longrightarrow> current_message s = Some a \<Longrightarrow>
   line_step s l = Inr (append_content s a t)"
  by (auto simp: continuation_of_def line_step_def Let_def split: if_splits)

lemma line_step_total: "\<exists>s'. line_step s l = Inr s'"
proof (cases "match_line (rstrip_nl l)")
  case None
  then show ?thesis
    by (auto simp: line_step_def Let_def split: option.splits)
next
  case (Some g)
  with build_message_no_crash[OF Some] show ?thesis
    by (cases "build_message g") (auto simp: line_step_def Let_def)
qed

lemma line_step_other:
  assumes "start_of l = None" and "line_step s l = Inr s'"
  shows "s' = s \<or> s' = flush s \<or> (\<exists>a t. current_message s = Some a \<and> s' = append_content s a t)"
  using assms
  by (auto simp: start_of_def line_step_def Let_def
           split: if_splits option.splits built.splits)

lemma run_total: "\<exists>s'. run s ls = Inr s'"
proof (induction ls arbitrary: s)
  case Nil
  show ?case by simp
next
  case (Cons l ls)
  obtain s1 where "line_step s l = Inr s1"
    using line_step_total by blast
  with Cons[of s1] show ?case by simp
qed

lemma parse_chat_total: "\<exists>out. parse_chat ls = Inr out"
  using run_total[of init ls] by (auto simp: parse_chat_def)

lemma run_append:
  "run s (xs @ ys) = (case run s xs of Inl e \<Rightarrow> Inl e | Inr s' \<Rightarrow> run s' ys)"
  by (induction xs arbitrary: s) (auto split: sum.splits)

lemma run_blank: "list_all blank bs \<Longrightarrow> run s bs = Inr s"
  by (induction bs) (auto simp: line_step_blank)

lemma rejected_no_continuation: "rejected l \<Longrightarrow> continuation_of l = None"
  by (auto simp: rejected_def continuation_of_def Let_def split: option.splits)

text \<open>What a line that starts no message does to the state.\<close>

lemma line_step_nostart:
  assumes "start_of l = None"
  shows "line_step s l =
           Inr (if rejected l then flush s
                else (case continuation_of l of
                        None \<Rightarrow> s
                      | Some t \<Rightarrow> (case current_message s of
                                    None \<Rightarrow> s
                                  | Some a \<Rightarrow> append_content s a t)))"
proof (cases "rstrip_nl l = []")
  case True
  then show ?thesis
    by (simp add: line_step_def rejected_def continuation_of_def)
next
  case line: False
  show ?thesis
  proof (cases "match_line (rstrip_nl l)")
    case None
    with line show ?thesis
      by (auto simp: line_step_def rejected_def continuation_of_def Let_def split: option.splits)
  next
    case (Some g)
    with assms line have "build_message g \<noteq> Built m" for m
      by (auto simp: start_of_def Let_def)
    with build_message_no_crash[OF Some] have "build_message g = Rejected"
      by (cases "build_message g") auto
    with Some line show ?thesis
      by (simp add: line_step_def rejected_def continuation_of_def Let_def)
  qed
qed

subsection \<open>What stays true of the state\<close>

lemma wf_init: "well_formed init"
  by (simp add: well_formed_def init_def)

lemma wf_flush: "well_formed s \<Longrightarrow> well_formed (flush s)"
  by (auto simp: well_formed_def flush_def sorted_append list_all_iff split: option.splits)

lemma wf_new:
  assumes "well_formed s"
  shows "well_formed (s\<lparr>store := store s @ [m], current_message := Some (length (store s))\<rparr>)"
  using assms by (auto simp: well_formed_def list_all_iff split: option.splits)

lemma wf_extend: "well_formed s \<Longrightarrow> well_formed (append_content s a t)"
  by (simp add: well_formed_def append_content_def split: option.splits)

lemma wf_refs: "well_formed s \<Longrightarrow> list_all (\<lambda>a. a < length (store s)) (messages (flush s))"
  by (auto simp: well_formed_def flush_def list_all_iff split: option.splits)

lemma step_wf:
  assumes "line_step s l = Inr s'" and "well_formed s"
  shows "well_formed s'"
proof (cases "start_of l")
  case (Some m)
  from line_step_start[OF Some, of s] assms(1)
  have "s' = (flush s)\<lparr>store := store s @ [m], current_message := Some (length (store s))\<rparr>"
    by simp
  then show ?thesis
    using wf_new[OF wf_flush[OF assms(2)], of m] by simp
next
  case None
  from assms(1) line_step_nostart[OF None, of s] show ?thesis
    using assms(2) wf_flush wf_extend by (auto split: if_splits option.splits)
qed

lemma run_wf:
  assumes "run s ls = Inr s'" and "well_formed s"
  shows "well_formed s'"
  using assms
proof (induction ls arbitrary: s)
  case Nil
  then show ?case by simp
next
  case (Cons l ls)
  from Cons.prems(1) obtain s1 where 1: "line_step s l = Inr s1" and 2: "run s1 ls = Inr s'"
    by (auto split: sum.splits)
  from Cons.IH[OF 2 step_wf[OF 1 Cons.prems(2)]] show ?case .
qed

lemma lex_le_refl: "lex_le xs xs"
  by (induction xs) auto

lemma dt_le_refl: "dt_le d d"
  by (simp add: dt_le_def lex_le_refl)

lemma parse_chat_run:
  assumes "parse_chat ls = Inr out"
  obtains s where "run init ls = Inr s" and "out = result s"
  using assms by (auto simp: parse_chat_def split: sum.splits)

lemma parse_nothing: "parse_chat [] = Inr []"
  by (simp add: parse_defs)

subsection \<open>A start line with a valid date cuts the log in two\<close>

lemma shifted_flush: "shifted S M t s \<Longrightarrow> shifted S M (flush t) (flush s)"
  by (auto simp: shifted_def flush_def split: option.splits)

lemma shifted_new:
  assumes "shifted S M t s"
  shows "shifted S M (t\<lparr>store := store t @ [m], current_message := Some (length (store t))\<rparr>)
           (s\<lparr>store := store s @ [m], current_message := Some (length (store s))\<rparr>)"
  using assms by (simp add: shifted_def)

lemma shifted_append_content:
  assumes "shifted S M t s"
  shows "shifted S M (append_content t a x) (append_content s (a + length S) x)"
  using assms by (simp add: shifted_def append_content_def list_update_append nth_append)

lemma shifted_step:
  assumes "shifted S M t s" and "line_step t l = Inr t'"
  shows "\<exists>s'. line_step s l = Inr s' \<and> shifted S M t' s'"
proof (cases "start_of l")
  case (Some m)
  from assms(2) line_step_start[OF Some, of t]
  have t': "t' = (flush t)\<lparr>store := store (flush t) @ [m],
                           current_message := Some (length (store (flush t)))\<rparr>"
    by simp
  have "line_step s l = Inr ((flush s)\<lparr>store := store (flush s) @ [m],
                                            current_message := Some (length (store (flush s)))\<rparr>)"
    using line_step_start[OF Some, of s] by simp
  then show ?thesis
    unfolding t' using shifted_new[OF shifted_flush[OF assms(1)], of m] by blast
next
  case None
  note c = assms(1)[unfolded shifted_def, THEN conjunct2, THEN conjunct2]
  show ?thesis
  proof (cases "rstrip_nl l = []")
    case True
    with assms show ?thesis
      by (auto simp: line_step_def)
  next
    case line: False
    show ?thesis
    proof (cases "match_line (rstrip_nl l)")
      case (Some g)
      with None line have r: "build_message g \<noteq> Crashed e" "build_message g \<noteq> Built m" for e m
        using build_message_no_crash[OF Some] by (auto simp: start_of_def Let_def)
      then have "build_message g = Rejected"
        by (cases "build_message g") auto
      with Some line assms(2) have "t' = flush t" "line_step s l = Inr (flush s)"
        by (auto simp: line_step_def Let_def)
      with shifted_flush[OF assms(1)] show ?thesis
        by blast
    next
      case m: None
      show ?thesis
      proof (cases "current_message t")
        case None
        with m line assms(2) c have "t' = t" "line_step s l = Inr s"
          by (auto simp: line_step_def Let_def)
        with assms(1) show ?thesis
          by blast
      next
        case (Some a)
        show ?thesis
        proof (cases "strip (rstrip_nl l) = []")
          case True
          with m line assms(2) c Some have "t' = t" "line_step s l = Inr s"
            by (auto simp: line_step_def Let_def)
          with assms(1) show ?thesis
            by blast
        next
          case False
          with m line assms(2) c Some have "t' = append_content t a (strip (rstrip_nl l))"
            "line_step s l = Inr (append_content s (a + length S) (strip (rstrip_nl l)))"
            by (auto simp: line_step_def Let_def)
          with shifted_append_content[OF assms(1)] show ?thesis
            by blast
        qed
      qed
    qed
  qed
qed

lemma shifted_run:
  assumes "shifted S M t s" and "run t ls = Inr t'"
  shows "\<exists>s'. run s ls = Inr s' \<and> shifted S M t' s'"
  using assms
proof (induction ls arbitrary: t s)
  case Nil
  then show ?case by simp
next
  case (Cons l ls)
  from Cons.prems(2) obtain t1 where 1: "line_step t l = Inr t1" and 2: "run t1 ls = Inr t'"
    by (auto split: sum.splits)
  from shifted_step[OF Cons.prems(1) 1] obtain s1 where
    3: "line_step s l = Inr s1" and 4: "shifted S M t1 s1"
    by blast
  from Cons.IH[OF 4 2] 3 show ?case
    by simp
qed

lemma shifted_result:
  assumes "shifted S M t s" and "list_all (\<lambda>a. a < length S) M"
  shows "result s = map ((!) S) M @ result t"
proof -
  from shifted_flush[OF assms(1)] have
    st: "store s = S @ store t"
    and ms: "messages (flush s) = M @ map (\<lambda>a. a + length S) (messages (flush t))"
    by (simp_all add: shifted_def)
  have "map ((!) (S @ store t)) M = map ((!) S) M"
    using assms(2) by (simp add: list_all_iff nth_append)
  then show ?thesis
    by (simp add: result_def st ms nth_append comp_def)
qed

text \<open>
  A log whose second part begins with a start line that has a valid date is parsed as
  its two parts one after the other.
\<close>

lemma parse_chat_cut:
  assumes "start_of l = Some m" and "parse_chat xs = Inr out1"
    and "parse_chat (l # rest) = Inr out2"
  shows "parse_chat (xs @ l # rest) = Inr (out1 @ out2)"
proof -
  from assms(2) obtain s where rs: "run init xs = Inr s" and o1: "out1 = result s"
    by (rule parse_chat_run)
  from assms(3) obtain t where rt: "run init (l # rest) = Inr t" and o2: "out2 = result t"
    by (rule parse_chat_run)
  note w = run_wf[OF rs wf_init]
  define t1 where "t1 = init\<lparr>store := [m], current_message := Some 0\<rparr>"
  define s1 where
    "s1 = (flush s)\<lparr>store := store s @ [m], current_message := Some (length (store s))\<rparr>"
  have lt: "line_step init l = Inr t1"
    using line_step_start[OF assms(1), of init] by (simp add: t1_def init_def flush_def)
  have ls: "line_step s l = Inr s1"
    using line_step_start[OF assms(1), of s] by (simp add: s1_def)
  have sh: "shifted (store s) (messages (flush s)) t1 s1"
    by (simp add: shifted_def t1_def s1_def init_def)
  from rt lt have "run t1 rest = Inr t"
    by simp
  from shifted_run[OF sh this] obtain s' where
    rs': "run s1 rest = Inr s'" and sh': "shifted (store s) (messages (flush s)) t s'"
    by blast
  have "run init (xs @ l # rest) = Inr s'"
    by (simp add: run_append rs ls rs')
  moreover have "result s' = result s @ result t"
    using shifted_result[OF sh' wf_refs[OF w]] by (simp add: result_def)
  ultimately show ?thesis
    by (simp add: parse_chat_def o1 o2)
qed

subsection \<open>The output, start line by start line\<close>

lemma added_Cons:
  "added (l # body) = (case continuation_of l of None \<Rightarrow> [] | Some t \<Rightarrow> [32] @ t) @ added body"
  by (simp add: added_def split: option.splits)

text \<open>
  The lines after a start line, up to the next one: the one pending dictionary takes the
  text of the continuation lines, and is appended once for every line whose date is
  refused.
\<close>

lemma run_body:
  assumes "\<forall>x\<in>set body. start_of x = None"
  shows "run \<lparr>store = [x], messages = replicate k 0, current_message = Some 0\<rparr> body
           = Inr \<lparr>store = [x\<lparr>content := content x @ added body\<rparr>],
                  messages = replicate (k + length (filter rejected body)) 0,
                  current_message = Some 0\<rparr>"
  using assms
proof (induction body arbitrary: x k)
  case Nil
  show ?case by (simp add: added_def)
next
  case (Cons l body)
  from Cons.prems have l: "start_of l = None" and b: "\<forall>x\<in>set body. start_of x = None"
    by simp_all
  let ?s = "\<lparr>store = [x], messages = replicate k 0, current_message = Some 0\<rparr>"
  show ?case
  proof (cases "rejected l")
    case True
    have "line_step ?s l = Inr \<lparr>store = [x], messages = replicate (Suc k) 0, current_message = Some 0\<rparr>"
      by (simp add: line_step_nostart[OF l] True flush_def replicate_append_same)
    then show ?thesis
      using Cons.IH[OF b, of x "Suc k"] True
      by (simp add: added_Cons rejected_no_continuation)
  next
    case False
    show ?thesis
    proof (cases "continuation_of l")
      case None
      have "line_step ?s l = Inr ?s"
        by (simp add: line_step_nostart[OF l] False None)
      then show ?thesis
        using Cons.IH[OF b, of x k] False None by (simp add: added_Cons)
    next
      case (Some t)
      have "line_step ?s l
              = Inr \<lparr>store = [x\<lparr>content := content x @ [32] @ t\<rparr>], messages = replicate k 0,
                     current_message = Some 0\<rparr>"
        by (simp add: line_step_nostart[OF l] False Some append_content_def)
      then show ?thesis
        using Cons.IH[OF b, of "x\<lparr>content := content x @ [32] @ t\<rparr>" k] False Some
        by (simp add: added_Cons)
    qed
  qed
qed

lemma segment_alone:
  assumes "start_of l = Some m" and "\<forall>x\<in>set body. start_of x = None"
  shows "parse_chat (l # body) = Inr (emitted (m, body))"
proof -
  have "line_step init l = Inr \<lparr>store = [m], messages = [], current_message = Some 0\<rparr>"
    using line_step_start[OF assms(1), of init] by (simp add: init_def flush_def)
  moreover have "run \<lparr>store = [m], messages = [], current_message = Some 0\<rparr> body
                   = Inr \<lparr>store = [m\<lparr>content := content m @ added body\<rparr>],
                          messages = replicate (length (filter rejected body)) 0,
                          current_message = Some 0\<rparr>"
    using run_body[OF assms(2), of m 0] by simp
  ultimately show ?thesis
    by (simp add: parse_chat_def result_def flush_def emitted_def replicate_append_same)
qed

lemma run_no_starts: "\<forall>x\<in>set ls. start_of x = None \<Longrightarrow> run init ls = Inr init"
proof (induction ls)
  case Nil
  show ?case by simp
next
  case (Cons l ls)
  then have "line_step init l = Inr init"
    by (simp add: line_step_nostart init_def flush_def split: option.splits)
  with Cons show ?case by simp
qed

lemma parse_no_starts: "\<forall>x\<in>set ls. start_of x = None \<Longrightarrow> parse_chat ls = Inr []"
  by (simp add: parse_chat_def run_no_starts) (simp add: result_def init_def flush_def)

lemma segments_no_starts: "\<forall>x\<in>set ls. start_of x = None \<Longrightarrow> segments ls = []"
  by (induction ls) auto

lemma parse_chat_skip:
  assumes "start_of l = None"
  shows "parse_chat (l # ls) = parse_chat ls"
proof -
  have "line_step init l = Inr init"
    using assms by (simp add: line_step_nostart init_def flush_def split: option.splits)
  then show ?thesis
    by (simp add: parse_chat_def)
qed

text \<open>
  The list that the parser returns, for any lines: start line by start line, in the
  order of the log, what each of them and the lines after it give.
\<close>

lemma parse_chat_segments: "parse_chat ls = Inr (concat (map emitted (segments ls)))"
proof (induction ls)
  case Nil
  show ?case by (simp add: parse_nothing)
next
  case (Cons l ls)
  show ?case
  proof (cases "start_of l")
    case None
    with Cons show ?thesis
      by (simp add: parse_chat_skip)
  next
    case (Some m)
    define body where "body = takeWhile (\<lambda>x. start_of x = None) ls"
    define rest where "rest = dropWhile (\<lambda>x. start_of x = None) ls"
    have ls: "ls = body @ rest"
      by (simp add: body_def rest_def)
    have nb: "\<forall>x\<in>set body. start_of x = None"
      by (auto simp: body_def dest: set_takeWhileD)
    have seg: "parse_chat (l # body) = Inr (emitted (m, body))"
      by (rule segment_alone[OF Some nb])
    show ?thesis
    proof (cases rest)
      case Nil
      with ls nb have "segments ls = []"
        by (simp add: segments_no_starts)
      with Nil ls seg show ?thesis
        by (simp add: Some body_def)
    next
      case (Cons l2 r)
      have "dropWhile (\<lambda>x. start_of x = None) ls = l2 # r"
        using Cons by (simp add: rest_def)
      then have "start_of l2 \<noteq> None"
        using hd_dropWhile[of "\<lambda>x. start_of x = None" ls] by fastforce
      then obtain m2 where m2: "start_of l2 = Some m2"
        by auto
      obtain o2 where o2: "parse_chat (l2 # r) = Inr o2"
        using parse_chat_total by blast
      have "parse_chat ls = Inr ([] @ o2)"
        unfolding ls Cons by (rule parse_chat_cut[OF m2 parse_no_starts[OF nb] o2])
      with Cons.IH have o2': "o2 = concat (map emitted (segments ls))"
        by simp
      have "parse_chat ((l # body) @ l2 # r) = Inr (emitted (m, body) @ o2)"
        by (rule parse_chat_cut[OF m2 seg o2])
      then show ?thesis
        by (simp add: ls[unfolded Cons, symmetric] Some body_def[symmetric] o2')
    qed
  qed
qed

lemma segments_starts: "map fst (segments ls) = starts ls"
  by (induction ls) (auto simp: starts_def split: option.splits)

lemma sorted_wrt_replicate: "(\<And>x. R x x) \<Longrightarrow> sorted_wrt R (replicate n x)"
  by (induction n) auto

lemma sorted_wrt_groups:
  assumes "\<And>x. R x x"
  shows "sorted_wrt R (concat (map (\<lambda>(x, n). replicate (Suc n) x) gs))
           \<longleftrightarrow> sorted_wrt R (map fst gs)"
proof (induction gs)
  case Nil
  show ?case by simp
next
  case (Cons g gs)
  obtain x n where g: "g = (x, n)"
    by (cases g) auto
  have s: "set (concat (map (\<lambda>(x, n). replicate (Suc n) x) gs)) = fst ` set gs"
    by (induction gs) auto
  show ?case
    using Cons assms
    by (simp add: g sorted_wrt_append sorted_wrt_replicate s del: replicate.simps) auto
qed

lemma dates_emitted:
  "map date (concat (map emitted gs))
     = concat (map (\<lambda>(d, n). replicate (Suc n) d)
                (map (\<lambda>(m, body). (date m, length (filter rejected body))) gs))"
  by (induction gs) (auto simp: emitted_def)

lemma sorted_segments:
  "timestamps_sorted (concat (map emitted (segments ls))) \<longleftrightarrow> timestamps_sorted (starts ls)"
proof -
  have "map fst (map (\<lambda>(m, body). (date m, length (filter rejected body))) (segments ls))
          = map date (starts ls)"
    by (simp add: segments_starts[symmetric] comp_def split_def)
  then show ?thesis
    unfolding timestamps_sorted_def dates_emitted
    using sorted_wrt_groups[of dt_le, OF dt_le_refl] by metis
qed

section \<open>The claims about the parser\<close>

lemma built_media:
  assumes "build_message g = Built m"
  shows "is_media m \<longleftrightarrow> contains (lower (content m)) (asc ''omitted'')"
proof -
  obtain d t n c where g: "g = (d, t, n, c)"
    by (cases g) auto
  from assms obtain dt where "m = new_message dt n c"
    unfolding g build_message_def
    by (auto split: list.splits option.splits)
  then show ?thesis
    by (simp add: new_message_def Let_def)
qed

lemmas line_defs = start_of_def starts_def continuation_of_def blank_def rejected_def
  timestamps_sorted_def dt_le_def dt_key_def sample_message_def

lemma late_then_early:
  "parse_chat [asc ''[11/26/24, 09:00:00 AM] Alice: Hello'',
               asc ''[11/25/24, 09:00:00 AM] Alice: Hello'']
     = Inr [sample_message\<lparr>date := (date sample_message)\<lparr>day := 26\<rparr>\<rparr>, sample_message]"
  by (simp add: parse_defs sample_message_def)

lemma sample_start:
  "start_of (asc ''[11/25/24, 09:00:00 AM] Alice: Hello'') = Some sample_message"
  by (simp add: parse_defs line_defs)

text \<open>
  The pattern's digit class and \<open>int\<close> take every decimal digit, not only those of ASCII:
  the sample line with its date and time in Arabic-Indic digits (U+0660 to U+0669) starts
  the same message.
\<close>

lemma arabic_indic_start:
  "parse_chat [[91, 1633, 1633, 47, 1634, 1637, 47, 1634, 1636, 44, 32,
                1632, 1641, 58, 1632, 1632, 58, 1632, 1632, 32, 65, 77, 93, 32]
               @ asc ''Alice: Hello'']
     = Inr [sample_message]"
  by (simp add: parse_defs sample_message_def)

text \<open>
  C3, as it stands: the list of messages returned by the parser is non-decreasing in
  timestamp for any sequence of lines. It fails on a log whose second message is dated
  the day before the first: the parser keeps the order of the lines.
\<close>

theorem order_invariant_counterexample:
  "parse_chat [asc ''[11/26/24, 09:00:00 AM] Alice: Hello'',
               asc ''[11/25/24, 09:00:00 AM] Alice: Hello'']
     = Inr [sample_message\<lparr>date := (date sample_message)\<lparr>day := 26\<rparr>\<rparr>, sample_message]
   \<and> \<not> timestamps_sorted
          [sample_message\<lparr>date := (date sample_message)\<lparr>day := 26\<rparr>\<rparr>, sample_message]"
  using late_then_early by (simp add: line_defs)

lemma sample_rejected: "rejected (asc ''[11/31/24, 10:00:00 AM] Bob: Hi'')"
  by (simp add: parse_defs line_defs)

lemma early_then_late_segments:
  "segments [asc ''[11/25/24, 09:00:00 AM] Alice: Hello'',
             asc ''[11/31/24, 10:00:00 AM] Bob: Hi'',
             asc ''[11/26/24, 09:00:00 AM] Alice: Hello'']
     = [(sample_message, [asc ''[11/31/24, 10:00:00 AM] Bob: Hi'']),
        (sample_message\<lparr>date := (date sample_message)\<lparr>day := 26\<rparr>\<rparr>, [])]"
  by (simp add: parse_defs line_defs)

text \<open>
  C3, amended: the parser keeps the order of the log and does not sort. For any sequence
  of lines it returns a list, which is made as follows: for each message-start line with
  a valid date, in the order of the log, the message of that line with the text of its
  continuation lines, once and once more for every line with a refused date that follows
  it before the next such start line. The messages of these start lines are \<open>starts\<close>,
  and the returned list is non-decreasing in timestamp (ties allowed) if and only if the
  timestamps of these start lines are non-decreasing in the order of the log.
\<close>

theorem log_order:
  "parse_chat ls = Inr (concat (map emitted (segments ls)))
   \<and> map fst (segments ls) = starts ls
   \<and> (timestamps_sorted (concat (map emitted (segments ls))) \<longleftrightarrow> timestamps_sorted (starts ls))"
  by (intro conjI) (rule parse_chat_segments, rule segments_starts, rule sorted_segments)

theorem log_order_witness:
  "parse_chat [asc ''[11/25/24, 09:00:00 AM] Alice: Hello'',
               asc ''[11/31/24, 10:00:00 AM] Bob: Hi'',
               asc ''[11/26/24, 09:00:00 AM] Alice: Hello'']
     = Inr [sample_message, sample_message,
            sample_message\<lparr>date := (date sample_message)\<lparr>day := 26\<rparr>\<rparr>]
   \<and> starts [asc ''[11/25/24, 09:00:00 AM] Alice: Hello'',
              asc ''[11/31/24, 10:00:00 AM] Bob: Hi'',
              asc ''[11/26/24, 09:00:00 AM] Alice: Hello'']
       = [sample_message, sample_message\<lparr>date := (date sample_message)\<lparr>day := 26\<rparr>\<rparr>]
   \<and> timestamps_sorted
        [sample_message, sample_message,
         sample_message\<lparr>date := (date sample_message)\<lparr>day := 26\<rparr>\<rparr>]"
proof -
  note t = log_order[of "[asc ''[11/25/24, 09:00:00 AM] Alice: Hello'',
                          asc ''[11/31/24, 10:00:00 AM] Bob: Hi'',
                          asc ''[11/26/24, 09:00:00 AM] Alice: Hello'']",
                     unfolded early_then_late_segments]
  from t have 1:
    "parse_chat [asc ''[11/25/24, 09:00:00 AM] Alice: Hello'',
                 asc ''[11/31/24, 10:00:00 AM] Bob: Hi'',
                 asc ''[11/26/24, 09:00:00 AM] Alice: Hello'']
       = Inr [sample_message, sample_message,
              sample_message\<lparr>date := (date sample_message)\<lparr>day := 26\<rparr>\<rparr>]"
    by (simp add: emitted_def added_def List.map_filter_def sample_rejected
          rejected_no_continuation)
  from t have 2:
    "starts [asc ''[11/25/24, 09:00:00 AM] Alice: Hello'',
             asc ''[11/31/24, 10:00:00 AM] Bob: Hi'',
             asc ''[11/26/24, 09:00:00 AM] Alice: Hello'']
       = [sample_message, sample_message\<lparr>date := (date sample_message)\<lparr>day := 26\<rparr>\<rparr>]"
    by simp
  from t 2 have 3:
    "timestamps_sorted
       [sample_message, sample_message,
        sample_message\<lparr>date := (date sample_message)\<lparr>day := 26\<rparr>\<rparr>]"
    by (simp add: emitted_def added_def List.map_filter_def sample_rejected
          rejected_no_continuation timestamps_sorted_def dt_le_def dt_key_def sample_message_def)
  from 1 2 3 show ?thesis
    by (intro conjI)
qed

lemma media_in_continuation:
  "parse_chat [asc ''[11/25/24, 09:00:00 AM] Alice: Hello'', asc ''image omitted'']
     = Inr [sample_message\<lparr>content := asc ''Hello image omitted''\<rparr>]"
  by (simp add: parse_defs sample_message_def)

text \<open>
  C5, as it stands: \<open>is_media\<close> is true if and only if the content, the trailing text
  of the start line joined with all continuation lines, contains "omitted". It fails
  when the word arrives in a continuation line: the flag was set from the start line.
\<close>

theorem media_flag_counterexample:
  "parse_chat [asc ''[11/25/24, 09:00:00 AM] Alice: Hello'', asc ''image omitted'']
     = Inr [sample_message\<lparr>content := asc ''Hello image omitted''\<rparr>]
   \<and> contains (lower (content (sample_message\<lparr>content := asc ''Hello image omitted''\<rparr>)))
        (asc ''omitted'')
   \<and> \<not> is_media (sample_message\<lparr>content := asc ''Hello image omitted''\<rparr>)"
  using media_in_continuation by (simp add: sample_message_def asc_def lower_def)

lemma start_of_content:
  assumes "start_of l = Some m"
  shows "\<exists>d t n c. match_line (rstrip_nl l) = Some (d, t, n, c) \<and> content m = lstrip_marks (strip c)
           \<and> (is_media m \<longleftrightarrow> contains (lower (content m)) (asc ''omitted''))"
proof -
  from assms obtain g where g: "match_line (rstrip_nl l) = Some g" and b: "build_message g = Built m"
    by (auto simp: start_of_def Let_def split: if_splits option.splits built.splits)
  obtain d t n c where gg: "g = (d, t, n, c)"
    by (cases g) auto
  from b obtain dt where "m = new_message dt n c"
    unfolding gg build_message_def by (auto split: list.splits option.splits)
  then have "content m = lstrip_marks (strip c)"
    by (simp add: new_message_def Let_def)
  with g gg built_media[OF b] show ?thesis
    by blast
qed

lemma segments_media:
  "(m0, body) \<in> set (segments ls) \<Longrightarrow> is_media m0 \<longleftrightarrow> contains (lower (content m0)) (asc ''omitted'')"
proof (induction ls)
  case Nil
  then show ?case by simp
next
  case (Cons l ls)
  then show ?case
    using start_of_content[of l m0] by (auto split: option.splits)
qed

lemma sample_segments:
  "segments [asc ''[11/25/24, 09:00:00 AM] Alice: Hello'', asc ''image omitted'']
     = [(sample_message, [asc ''image omitted''])]"
  by (simp add: parse_defs line_defs)

lemma sample_emitted:
  "emitted (sample_message, [asc ''image omitted''])
     = [sample_message\<lparr>content := asc ''Hello image omitted''\<rparr>]"
  by (simp add: emitted_def added_def List.map_filter_def parse_defs line_defs)

text \<open>
  C5, amended: every emitted message comes from one message-start line with a valid
  date. With \<open>m0\<close> the message of that line (its content is the trailing text of the
  line, trimmed and without leading marks) and \<open>body\<close> the lines after it up to the next
  such start line, the emitted message is \<open>m0\<close> with the text of the continuation
  lines of \<open>body\<close> appended to its content, and its \<open>is_media\<close> flag is true if and
  only if the content of \<open>m0\<close>, the trailing text of the start line alone, contains
  "omitted", whatever the case of the letters. Continuation lines do not change the
  flag.
\<close>

theorem media_flag:
  "parse_chat ls = Inr (concat (map emitted (segments ls)))
   \<and> map fst (segments ls) = starts ls
   \<and> (\<forall>(m0, body)\<in>set (segments ls). \<forall>m\<in>set (emitted (m0, body)).
         m = m0\<lparr>content := content m0 @ added body\<rparr>
         \<and> (is_media m \<longleftrightarrow> contains (lower (content m0)) (asc ''omitted'')))"
proof (intro conjI)
  show "parse_chat ls = Inr (concat (map emitted (segments ls)))"
    by (rule parse_chat_segments)
  show "map fst (segments ls) = starts ls"
    by (rule segments_starts)
  show "\<forall>(m0, body)\<in>set (segments ls). \<forall>m\<in>set (emitted (m0, body)).
          m = m0\<lparr>content := content m0 @ added body\<rparr>
          \<and> (is_media m \<longleftrightarrow> contains (lower (content m0)) (asc ''omitted''))"
    using segments_media[of _ _ ls] by (auto simp: emitted_def)
qed

theorem media_flag_witness:
  "segments [asc ''[11/25/24, 09:00:00 AM] Alice: Hello'', asc ''image omitted'']
     = [(sample_message, [asc ''image omitted''])]
   \<and> emitted (sample_message, [asc ''image omitted''])
       = [sample_message\<lparr>content := asc ''Hello image omitted''\<rparr>]
   \<and> parse_chat [asc ''[11/25/24, 09:00:00 AM] Alice: Hello'', asc ''image omitted'']
       = Inr [sample_message\<lparr>content := asc ''Hello image omitted''\<rparr>]
   \<and> (is_media (sample_message\<lparr>content := asc ''Hello image omitted''\<rparr>)
        \<longleftrightarrow> contains (lower (content sample_message)) (asc ''omitted''))"
  using media_flag[of "[asc ''[11/25/24, 09:00:00 AM] Alice: Hello'', asc ''image omitted'']"]
  by (simp add: sample_segments sample_emitted del: segments.simps)

text \<open>
  C10. The claim: for every input in which a message-start line is followed by two
  non-blank lines that do not match the pattern, the parser emits exactly one message
  for that group, whose content is the three fragments joined in order with single
  spaces; blank lines are skipped. The content is as the claim says, and the group alone
  gives one message. When the next line of the log is a start line whose date is
  refused, the parser has appended the pending message of the group before it tries the
  date and leaves it pending; it is appended again at the end of the log, and the group
  gives two messages. This is the defect of C2, met by an input of this claim.
\<close>

theorem continuation_group_twice:
  "parse_chat [asc ''[11/25/24, 09:00:00 AM] Alice: Hello'', asc ''how are'', asc ''you'']
     = Inr [sample_message\<lparr>content := asc ''Hello how are you''\<rparr>]
   \<and> parse_chat [asc ''[11/25/24, 09:00:00 AM] Alice: Hello'', asc ''how are'', asc ''you'',
                 asc ''[11/31/24, 10:00:00 AM] Bob: Hi'']
       = Inr [sample_message\<lparr>content := asc ''Hello how are you''\<rparr>,
              sample_message\<lparr>content := asc ''Hello how are you''\<rparr>]
   \<and> parse_chat [asc ''[11/25/24, 09:00:00 AM] Alice: Hello'', [], asc ''how are'', [32, 32, 10],
                 asc ''you'', [10], asc ''[11/31/24, 10:00:00 AM] Bob: Hi'']
       = Inr [sample_message\<lparr>content := asc ''Hello how are you''\<rparr>,
              sample_message\<lparr>content := asc ''Hello how are you''\<rparr>]"
  by (simp add: parse_defs sample_message_def)

text \<open>
  A start line whose date is refused: the pending message has been appended to
  \<open>messages\<close> and stays pending.
\<close>

lemma line_step_rejected: "rejected l \<Longrightarrow> line_step s l = Inr (flush s)"
  by (auto simp: rejected_def line_step_def Let_def split: option.splits)

text \<open>
  C2. The claim: a message-start line with an invalid date is discarded, and the message
  that was pending before it still appears exactly once in the output. The parser
  appends the pending message to its list before it tries the date, and leaves it
  pending when the date is refused: the pending message is appended again at the next
  flush. On a log of one valid line and one line dated 31 November the message of the
  valid line is returned twice; a continuation line after the refused line extends both
  entries, which are one dictionary.
\<close>

theorem invalid_date_duplicates:
  "parse_chat [asc ''[11/25/24, 09:00:00 AM] Alice: Hello'',
               asc ''[11/31/24, 10:00:00 AM] Bob: Hi'']
     = Inr [sample_message, sample_message]
   \<and> parse_chat [asc ''[11/25/24, 09:00:00 AM] Alice: Hello'',
                 asc ''[11/31/24, 10:00:00 AM] Bob: Hi'',
                 asc ''again'']
     = Inr [sample_message\<lparr>content := asc ''Hello again''\<rparr>,
            sample_message\<lparr>content := asc ''Hello again''\<rparr>]"
  by (simp add: parse_defs sample_message_def)

section \<open>The loop over the messages\<close>










section \<open>The claims about the statistics\<close>

lemmas cal_defs = time_diff_def total_seconds_def toordinal_def days_before_year_def
  days_before_month_def is_leap_def weekday_def date_key_def

lemmas agg_defs = aggregate_def step_def count_person_def credit_reply_def person_of_def
  new_stats_def new_person_def normalize_name_def name_map_def bump_def incr_def asc_def Let_def
  sample_message_def cal_defs





text \<open>
  C1. The claim: for an empty list of messages, or one of system messages only, the
  statistics are returned with all totals zero and no most active day, and nothing is
  raised. The function ends with \<open>max\<close> over the items of \<open>daily_counts\<close>, which is
  empty then: \<open>max\<close> raises \<open>ValueError\<close> and no statistics are returned.
\<close>

theorem empty_input_raises:
  "calculate_stats F [] = Inl ValueError
   \<and> calculate_stats F [sample_message\<lparr>sender := asc ''2K25 OBRUTS'', is_system := True\<rparr>]
       = Inl ValueError"
  by (simp add: calculate_stats_def aggregate_def step_def new_stats_def sample_message_def)

text \<open>
  C4. The claim: the test that the previous sender differs from the current one is made
  on the normalised names, so that two successive messages whose raw senders differ but
  have the same canonical name give no response-time sample and no replied-to increment.
  The test compares the raw sender strings: the two spellings of Aziz in the alias table,
  ten minutes apart, give the one person Aziz a response-time sample of 10 minutes and a
  replied-to count of 1.
\<close>

theorem alias_self_reply:
  "normalize_name (asc ''Aziz El Romancy'') = asc ''Aziz''
   \<and> normalize_name (asc ''Aziz El Romancy'' @ [128525]) = asc ''Aziz''
   \<and> map (\<lambda>(k, p). (k, response_times p, replied_to_count p))
       (by_person (fst (aggregate
          [sample_message\<lparr>sender := asc ''Aziz El Romancy''\<rparr>,
           sample_message\<lparr>sender := asc ''Aziz El Romancy'' @ [128525],
                          date := (date sample_message)\<lparr>minute := 10\<rparr>\<rparr>])))
       = [(asc ''Aziz'', [10], 1)]"
  by (simp add: agg_defs)

lemma finalize_fields:
  "p_messages (finalize F p) = p_messages p"
  "p_media (finalize F p) = p_media p"
  "response_times (finalize F p) = response_times p"
  "avg_chars (finalize F p)
     = (if p_messages p - p_media p > 0
        then round_div F (p_total_chars p) (p_messages p - p_media p) else 0)"
  "avg_response (finalize F p)
     = (if response_times p \<noteq> [] then Some (round1_mean F (response_times p)) else None)"
  "fastest_response (finalize F p)
     = (if response_times p \<noteq> [] then Some (round1_min F (response_times p)) else None)"
  by (simp_all add: finalize_def Let_def person.defs)

lemma by_person_result:
  assumes "calculate_stats F msgs = Inr r"
  shows "by_person r = map (\<lambda>(k, p). (k, finalize F p)) (by_person (fst (aggregate msgs)))"
  using assms by (auto simp: calculate_stats_def Let_def split: option.splits)

lemma media_only_stats:
  "calculate_stats F [media_message] = Inr (projr (calculate_stats F [media_message]))"
proof -
  have "max_by_count (daily_counts (fst (aggregate [media_message]))) \<noteq> None"
    by (simp add: aggregate_def step_def new_stats_def bump_def media_message_def
          sample_message_def Let_def)
  then show ?thesis
    by (auto simp: calculate_stats_def Let_def split: option.splits)
qed

lemma media_only_person:
  "by_person (fst (aggregate [media_message]))
     = [(asc ''Alice'', count_person media_message None new_person)]"
  by (simp add: aggregate_def step_def new_stats_def normalize_name_def name_map_def
        person_of_def credit_reply_def media_message_def sample_message_def asc_def Let_def)

lemma media_only_member:
  "(asc ''Alice'', finalize F (count_person media_message None new_person))
     \<in> set (by_person (projr (calculate_stats F [media_message])))"
  by (simp add: by_person_result[OF media_only_stats] media_only_person)

lemma media_only_counts:
  "p_messages (count_person media_message None new_person)
     - p_media (count_person media_message None new_person) = 0"
  "response_times (count_person media_message None new_person) = []"
  by (simp_all add: count_person_def new_person_def media_message_def sample_message_def Let_def)

text \<open>
  C7. At finalisation, for every person of the returned statistics: when the number of
  messages minus the number of media messages is 0, \<open>avg_chars\<close> is 0 and nothing is
  raised; when there is no response-time sample, \<open>avg_response\<close> and
  \<open>fastest_response\<close> are \<open>None\<close>, not zero. Here \<open>p0\<close> is the record of the person
  at the end of the loop over the messages and \<open>p\<close> the finalised one; the statement
  holds whatever the floating-point arithmetic \<open>F\<close> gives in the other cases.
\<close>

theorem zero_guards:
  assumes "calculate_stats F msgs = Inr r" and "(k, p) \<in> set (by_person r)"
  shows "\<exists>p0. (k, p0) \<in> set (by_person (fst (aggregate msgs))) \<and> p = finalize F p0 \<and>
           (p_messages p0 - p_media p0 = 0 \<longrightarrow> avg_chars p = 0) \<and>
           (response_times p0 = [] \<longrightarrow> avg_response p = None \<and> fastest_response p = None)"
proof -
  from assms obtain p0 where "(k, p0) \<in> set (by_person (fst (aggregate msgs)))" "p = finalize F p0"
    by (auto simp: by_person_result[OF assms(1)])
  then show ?thesis
    by (auto simp: finalize_fields)
qed

theorem zero_guards_witness:
  "\<forall>F. calculate_stats F [media_message] = Inr (projr (calculate_stats F [media_message]))
     \<and> (asc ''Alice'', finalize F (count_person media_message None new_person))
         \<in> set (by_person (projr (calculate_stats F [media_message])))
     \<and> p_messages (count_person media_message None new_person)
         - p_media (count_person media_message None new_person) = 0
     \<and> response_times (count_person media_message None new_person) = []
     \<and> avg_chars (finalize F (count_person media_message None new_person)) = 0
     \<and> avg_response (finalize F (count_person media_message None new_person)) = None
     \<and> fastest_response (finalize F (count_person media_message None new_person)) = None"
proof
  fix F
  from zero_guards[OF media_only_stats media_only_member, of F] obtain p0 where
    m: "(asc ''Alice'', p0) \<in> set (by_person (fst (aggregate [media_message])))"
    and g1: "p_messages p0 - p_media p0 = 0 \<longrightarrow>
               avg_chars (finalize F (count_person media_message None new_person)) = 0"
    and g2: "response_times p0 = [] \<longrightarrow>
               avg_response (finalize F (count_person media_message None new_person)) = None \<and>
               fastest_response (finalize F (count_person media_message None new_person)) = None"
    by auto
  from m have p0: "p0 = count_person media_message None new_person"
    by (simp add: media_only_person)
  from g1 g2 media_only_counts have
    "avg_chars (finalize F (count_person media_message None new_person)) = 0"
    "avg_response (finalize F (count_person media_message None new_person)) = None"
    "fastest_response (finalize F (count_person media_message None new_person)) = None"
    unfolding p0 by simp_all
  with media_only_stats[of F] media_only_member[of F] media_only_counts
  show "calculate_stats F [media_message] = Inr (projr (calculate_stats F [media_message]))
     \<and> (asc ''Alice'', finalize F (count_person media_message None new_person))
         \<in> set (by_person (projr (calculate_stats F [media_message])))
     \<and> p_messages (count_person media_message None new_person)
         - p_media (count_person media_message None new_person) = 0
     \<and> response_times (count_person media_message None new_person) = []
     \<and> avg_chars (finalize F (count_person media_message None new_person)) = 0
     \<and> avg_response (finalize F (count_person media_message None new_person)) = None
     \<and> fastest_response (finalize F (count_person media_message None new_person)) = None"
    by (intro conjI)
qed


end
